theory Spec2Isabelle
  imports Complex_Main
begin

section \<open>Game logic (gameLogic.ts)\<close>

text \<open>
  A JavaScript string is a sequence of code units; the model uses \<open>string\<close>, one
  \<open>char\<close> for each code unit. \<open>number\<close> values that count things are \<open>nat\<close>;
  \<open>config.digits\<close> comes from outside and is an \<open>int\<close>.
\<close>

record GameConfig =
  digits :: int
  allowDuplicate :: bool

definition defaultConfig :: GameConfig where
  "defaultConfig = \<lparr>digits = 4, allowDuplicate = False\<rparr>"

record GuessResult =
  hit :: nat
  blow :: nat

subsection \<open>Strings and arrays of JavaScript\<close>

text \<open>\<open>s[i]\<close>: the code unit at index \<open>i\<close>, \<open>undefined\<close> (here \<open>None\<close>) out of range.\<close>

definition str_at :: "string \<Rightarrow> nat \<Rightarrow> char option" where
  "str_at s i = (if i < length s then Some (s ! i) else None)"

text \<open>The string an argument of \<open>includes\<close> is converted to: \<open>undefined\<close> becomes its name.\<close>

definition toSearchString :: "char option \<Rightarrow> string" where
  "toSearchString v = (case v of None \<Rightarrow> ''undefined'' | Some c \<Rightarrow> [c])"

fun startsWith :: "string \<Rightarrow> string \<Rightarrow> bool" where
  "startsWith s [] = True"
| "startsWith [] (p # ps) = False"
| "startsWith (c # cs) (p # ps) = (c = p \<and> startsWith cs ps)"

text \<open>\<open>s.includes(sub)\<close>: \<open>sub\<close> occurs in \<open>s\<close> as a contiguous run.\<close>

fun str_includes :: "string \<Rightarrow> string \<Rightarrow> bool" where
  "str_includes [] sub = (sub = [])"
| "str_includes (c # cs) sub = (startsWith (c # cs) sub \<or> str_includes cs sub)"

subsection \<open>checkGuess\<close>

function checkGuess_loop :: "string \<Rightarrow> string \<Rightarrow> nat \<Rightarrow> GuessResult \<Rightarrow> GuessResult" where
  "checkGuess_loop s g i r =
     (if i < length s then
        (if str_at s i = str_at g i then
           checkGuess_loop s g (i + 1) (r\<lparr>hit := hit r + 1\<rparr>)
         else if str_includes s (toSearchString (str_at g i)) then
           checkGuess_loop s g (i + 1) (r\<lparr>blow := blow r + 1\<rparr>)
         else checkGuess_loop s g (i + 1) r)
      else r)"
  by pat_completeness auto
termination
  by (relation "measure (\<lambda>(s, g, i, r). length s - i)") auto

declare checkGuess_loop.simps [simp del]

definition checkGuess :: "string \<Rightarrow> string \<Rightarrow> GuessResult" where
  "checkGuess s g = checkGuess_loop s g 0 \<lparr>hit = 0, blow = 0\<rparr>"

definition isGameClear :: "GuessResult \<Rightarrow> GameConfig \<Rightarrow> bool" where
  "isGameClear r c = (int (hit r) = digits c)"

text \<open>The positions that count as hits and as blows, as lists of indices.\<close>

definition hitPositions :: "string \<Rightarrow> string \<Rightarrow> nat list" where
  "hitPositions s g = filter (\<lambda>i. s ! i = g ! i) [0..<length s]"

definition blowPositions :: "string \<Rightarrow> string \<Rightarrow> nat list" where
  "blowPositions s g = filter (\<lambda>i. s ! i \<noteq> g ! i \<and> g ! i \<in> set s) [0..<length s]"

subsection \<open>validateGuess\<close>

text \<open>
  The messages \<open>validateGuess\<close> returns, by the check that produces them; \<open>None\<close> is
  the \<open>null\<close> of a valid input.
\<close>

datatype ValidationError = WrongLength | NonDigitCharacter | DuplicateNotAllowed

definition isDigit :: "char \<Rightarrow> bool" where
  "isDigit c = (c \<in> set ''0123456789'')"

text \<open>The regular expression \<open>/^\d+$/\<close>: one or more characters, each of them a digit.\<close>

definition test_digits_only :: "string \<Rightarrow> bool" where
  "test_digits_only s = (s \<noteq> [] \<and> list_all isDigit s)"

text \<open>\<open>new Set(guess.split('')).size\<close>: the number of distinct code units.\<close>

definition uniqueDigits_size :: "string \<Rightarrow> nat" where
  "uniqueDigits_size s = length (remdups s)"

definition validateGuess :: "string \<Rightarrow> GameConfig \<Rightarrow> ValidationError option" where
  "validateGuess g cfg =
     (if int (length g) \<noteq> digits cfg then Some WrongLength
      else if \<not> test_digits_only g then Some NonDigitCharacter
      else if \<not> allowDuplicate cfg then
        (if int (uniqueDigits_size g) \<noteq> digits cfg then Some DuplicateNotAllowed
         else None)
      else None)"

subsection \<open>The strict rule for blows\<close>

text \<open>
  Not in the source: the rule the specification compares \<open>checkGuess\<close> with. Each
  digit contributes to the blows at most as often as it remains, outside the hits, in
  the secret and in the guess.
\<close>

definition remaining :: "string \<Rightarrow> string \<Rightarrow> string" where
  "remaining s g = map (\<lambda>i. s ! i) (filter (\<lambda>i. s ! i \<noteq> g ! i) [0..<length s])"

definition strictMastermindBlow :: "string \<Rightarrow> string \<Rightarrow> nat" where
  "strictMastermindBlow s g =
     sum_list (map (\<lambda>d. min (count_list (remaining s g) d) (count_list (remaining g s) d))
                   ''0123456789'')"

subsection \<open>generateRandomSecret\<close>

datatype GameError = InvalidConfiguration

text \<open>\<open>xs[i]\<close> for an array: \<open>undefined\<close> (here \<open>None\<close>) when \<open>i\<close> is out of range.\<close>

definition arr_at :: "'a list \<Rightarrow> int \<Rightarrow> 'a option" where
  "arr_at xs i = (if 0 \<le> i \<and> i < int (length xs) then Some (xs ! nat i) else None)"

text \<open>
  \<open>xs.splice(start, 1)\<close>: a negative start counts from the end, the start is clamped
  to the array, and one element is removed there when there is one.
\<close>

definition splice1 :: "'a list \<Rightarrow> int \<Rightarrow> 'a list" where
  "splice1 xs start =
     (let len = int (length xs);
          k = nat (if start < 0 then max (len + start) 0 else min start len)
      in take k xs @ drop (k + 1) xs)"

definition digit_char :: "nat \<Rightarrow> char" where
  "digit_char d = ''0123456789'' ! d"

text \<open>The decimal numeral of a number, as \<open>join\<close> writes it.\<close>

fun number_toString :: "nat \<Rightarrow> string" where
  "number_toString n =
     (if n < 10 then [digit_char n] else number_toString (n div 10) @ [digit_char (n mod 10)])"

declare number_toString.simps [simp del]

text \<open>\<open>result.join('')\<close>: an \<open>undefined\<close> element is written as the empty string.\<close>

definition join_empty :: "nat option list \<Rightarrow> string" where
  "join_empty xs = concat (map (\<lambda>v. case v of None \<Rightarrow> [] | Some n \<Rightarrow> number_toString n) xs)"

subsection \<open>Numbers\<close>

text \<open>
  \<open>Math.random()\<close> returns a double. A double that is not negative is a significand
  below \<open>2^53\<close> times a power of two, of exponent \<open>-1074\<close> at least; the record holds
  the two, and \<open>number_value\<close> is the number they stand for.
\<close>

record float64 =
  significand :: nat
  exponent :: int

definition number_value :: "float64 \<Rightarrow> real" where
  "number_value d = real (significand d) * 2 powi exponent d"

text \<open>The doubles from zero up to, and without, one: what \<open>Math.random()\<close> can return.\<close>

definition is_random :: "float64 \<Rightarrow> bool" where
  "is_random d =
     (significand d < 2 ^ 53 \<and> - 1074 \<le> exponent d \<and> exponent d \<le> 0
      \<and> significand d < 2 ^ nat (- exponent d))"

text \<open>The number of binary digits of a natural number.\<close>

fun bit_length :: "nat \<Rightarrow> nat" where
  "bit_length n = (if n = 0 then 0 else Suc (bit_length (n div 2)))"

declare bit_length.simps [simp del]

text \<open>
  \<open>p / 2^s\<close> rounded to the nearest natural number, a tie to the even one: the
  rounding of the arithmetic of doubles.
\<close>

definition round_half_even :: "nat \<Rightarrow> nat \<Rightarrow> nat" where
  "round_half_even p s =
     (if s = 0 then p
      else
        (let q = p div 2 ^ s; r = p mod 2 ^ s; h = 2 ^ (s - 1)
         in if r < h then q else if h < r then q + 1 else if even q then q else q + 1))"

text \<open>
  \<open>x * n\<close> for a double \<open>x\<close> and a natural number \<open>n\<close>: the exact product, rounded to
  53 binary digits when it has more. The exponent does not fall below that of \<open>x\<close>,
  so the small end of the doubles loses no digit.
\<close>

definition times_number :: "float64 \<Rightarrow> nat \<Rightarrow> float64" where
  "times_number d n =
     (let p = significand d * n; s = bit_length p - 53
      in \<lparr>significand = round_half_even p s, exponent = exponent d + int s\<rparr>)"

text \<open>\<open>Math.floor\<close> of a double that is not negative.\<close>

definition Math_floor :: "float64 \<Rightarrow> int" where
  "Math_floor d =
     (if 0 \<le> exponent d then int (significand d * 2 ^ nat (exponent d))
      else int (significand d div 2 ^ nat (- exponent d)))"

text \<open>The double nearest to \<open>0.7\<close>.\<close>

definition double_0_7 :: float64 where
  "double_0_7 = \<lparr>significand = 6305039478318694, exponent = - 53\<rparr>"

subsection \<open>The loop of generateRandomSecret\<close>

text \<open>
  \<open>Math.random()\<close> is the environment's: \<open>rnd k\<close> is the value of its \<open>k\<close>-th call, a
  double that the language guarantees to be in \<open>[0, 1)\<close>. Every pass of the loop calls
  it once.
\<close>

function generate_loop ::
  "(nat \<Rightarrow> float64) \<Rightarrow> int \<Rightarrow> bool \<Rightarrow> nat list \<Rightarrow> nat option list \<Rightarrow> nat \<Rightarrow> nat option list"
where
  "generate_loop rnd n dup availableDigits result k =
     (if int (length result) < n then
        (if dup then
           (let randomDigit = arr_at availableDigits (Math_floor (times_number (rnd k) 10))
            in generate_loop rnd n dup availableDigits (result @ [randomDigit]) (k + 1))
         else
           (let randomIndex = Math_floor (times_number (rnd k) (length availableDigits));
                selectedDigit = arr_at availableDigits randomIndex
            in generate_loop rnd n dup (splice1 availableDigits randomIndex)
                 (result @ [selectedDigit]) (k + 1)))
      else result)"
  by pat_completeness auto
termination
  by (relation "measure (\<lambda>(rnd, n, dup, a, result, k). nat (n - int (length result)))") auto

declare generate_loop.simps [simp del]

definition generateRandomSecret :: "(nat \<Rightarrow> float64) \<Rightarrow> GameConfig \<Rightarrow> GameError + string" where
  "generateRandomSecret rnd cfg =
     (if \<not> allowDuplicate cfg \<and> digits cfg > 10 then Inl InvalidConfiguration
      else Inr (join_empty
             (generate_loop rnd (digits cfg) (allowDuplicate cfg)
                [0, 1, 2, 3, 4, 5, 6, 7, 8, 9] [] 0)))"

text \<open>The invariant of the loop: every element pushed so far is a number below ten.\<close>

definition digit_values :: "nat option list \<Rightarrow> bool" where
  "digit_values vs = list_all (\<lambda>v. case v of None \<Rightarrow> False | Some d \<Rightarrow> d < 10) vs"

section \<open>Rooms (roomTypes.ts, roomService.ts)\<close>

datatype RoomStatus = Waiting | Playing | Finished

datatype PlayerRole = Host | Guest

record Player =
  uid :: string
  role :: PlayerRole
  isReady :: bool
  secret :: "string option"
  guesses :: "string list"
  lastActiveAt :: nat

text \<open>The field \<open>id\<close> of a room is \<open>id_room\<close> here.\<close>

record Room =
  id_room :: string
  status :: RoomStatus
  config :: GameConfig
  host :: Player
  guest :: "Player option"
  currentTurn :: PlayerRole
  createdAt :: nat
  updatedAt :: nat

record CreateRoomData =
  config_data :: GameConfig
  hostUid :: string

text \<open>
  The errors the service throws, named by what their messages say; \<open>StoreError\<close> is
  the store's own failure when a document to update does not exist.
\<close>

datatype RoomError =
  NotFound | AlreadyFull | NotJoinable | NotReady | SecretsMissing | PlayerNotFound | StoreError

subsection \<open>The document store\<close>

text \<open>
  The collection \<open>rooms\<close> maps a room id to its document. Every operation of the
  service is modelled as one step on the collection: the document it reads is the
  document it updates. \<open>Date.now()\<close> is the parameter \<open>now\<close>.
\<close>

type_synonym store = "string \<rightharpoonup> Room"

definition getDoc :: "store \<Rightarrow> string \<Rightarrow> Room option" where
  "getDoc db roomId = db roomId"

definition setDoc :: "store \<Rightarrow> string \<Rightarrow> Room \<Rightarrow> store" where
  "setDoc db roomId room = db(roomId \<mapsto> room)"

text \<open>\<open>updateDoc\<close> writes the given fields into an existing document and fails without one.\<close>

definition updateDoc :: "store \<Rightarrow> string \<Rightarrow> (Room \<Rightarrow> Room) \<Rightarrow> RoomError + store" where
  "updateDoc db roomId upd =
     (case db roomId of
        None \<Rightarrow> Inl StoreError
      | Some room \<Rightarrow> Inr (db(roomId \<mapsto> upd room)))"

definition deleteDoc :: "store \<Rightarrow> string \<Rightarrow> store" where
  "deleteDoc db roomId = db(roomId := None)"

text \<open>A field path below \<open>guest\<close>, such as \<open>guest.isReady\<close>, written into a present guest.\<close>

definition guest_field :: "(Player \<Rightarrow> Player) \<Rightarrow> Room \<Rightarrow> Room" where
  "guest_field f room = room\<lparr>guest := map_option f (guest room)\<rparr>"

definition host_field :: "(Player \<Rightarrow> Player) \<Rightarrow> Room \<Rightarrow> Room" where
  "host_field f room = room\<lparr>host := f (host room)\<rparr>"

text \<open>\<open>room.guest?.uid === playerUid\<close>: false without a guest.\<close>

definition guest_uid_is :: "Room \<Rightarrow> string \<Rightarrow> bool" where
  "guest_uid_is room playerUid =
     (case guest room of None \<Rightarrow> False | Some p \<Rightarrow> uid p = playerUid)"

subsection \<open>The operations\<close>

text \<open>The id of a new room is the store's choice; \<open>createRoom\<close> gets it as \<open>roomId\<close>.\<close>

definition createRoom :: "store \<Rightarrow> string \<Rightarrow> nat \<Rightarrow> CreateRoomData \<Rightarrow> string \<times> store" where
  "createRoom db roomId now d =
     (let room = \<lparr>id_room = roomId, status = Waiting, config = config_data d,
                   host = \<lparr>uid = hostUid d, role = Host, isReady = False, secret = None,
                            guesses = [], lastActiveAt = now\<rparr>,
                   guest = None, currentTurn = Host, createdAt = now, updatedAt = now\<rparr>
      in (roomId, setDoc db roomId room))"

definition joinRoom :: "store \<Rightarrow> string \<Rightarrow> string \<Rightarrow> nat \<Rightarrow> RoomError + (bool \<times> store)" where
  "joinRoom db roomId guestUid now =
     (case getDoc db roomId of
        None \<Rightarrow> Inl NotFound
      | Some room \<Rightarrow>
          if guest room \<noteq> None then Inl AlreadyFull
          else if status room \<noteq> Waiting then Inl NotJoinable
          else
            (let g = \<lparr>uid = guestUid, role = Guest, isReady = False, secret = None,
                      guesses = [], lastActiveAt = now\<rparr>
             in case updateDoc db roomId (\<lambda>r. r\<lparr>guest := Some g, updatedAt := now\<rparr>) of
                  Inl e \<Rightarrow> Inl e
                | Inr db' \<Rightarrow> Inr (True, db')))"

definition updatePlayerReady :: "store \<Rightarrow> string \<Rightarrow> string \<Rightarrow> bool \<Rightarrow> nat \<Rightarrow> RoomError + store" where
  "updatePlayerReady db roomId playerUid ready now =
     (case getDoc db roomId of
        None \<Rightarrow> Inl NotFound
      | Some room \<Rightarrow>
          if uid (host room) = playerUid then
            updateDoc db roomId (\<lambda>r. (host_field (\<lambda>p. p\<lparr>isReady := ready\<rparr>) r)\<lparr>updatedAt := now\<rparr>)
          else if guest_uid_is room playerUid then
            updateDoc db roomId (\<lambda>r. (guest_field (\<lambda>p. p\<lparr>isReady := ready\<rparr>) r)\<lparr>updatedAt := now\<rparr>)
          else Inr db)"

definition setPlayerSecret :: "store \<Rightarrow> string \<Rightarrow> string \<Rightarrow> string \<Rightarrow> nat \<Rightarrow> RoomError + store" where
  "setPlayerSecret db roomId playerUid s now =
     (case getDoc db roomId of
        None \<Rightarrow> Inl NotFound
      | Some room \<Rightarrow>
          if uid (host room) = playerUid then
            updateDoc db roomId (\<lambda>r. (host_field (\<lambda>p. p\<lparr>secret := Some s\<rparr>) r)\<lparr>updatedAt := now\<rparr>)
          else if guest_uid_is room playerUid then
            updateDoc db roomId (\<lambda>r. (guest_field (\<lambda>p. p\<lparr>secret := Some s\<rparr>) r)\<lparr>updatedAt := now\<rparr>)
          else Inr db)"

text \<open>\<open>!p.secret\<close>: a secret that is missing or the empty string counts as not set.\<close>

definition secret_missing :: "Player \<Rightarrow> bool" where
  "secret_missing p = (case secret p of None \<Rightarrow> True | Some s \<Rightarrow> s = [])"

definition startGame :: "store \<Rightarrow> string \<Rightarrow> nat \<Rightarrow> RoomError + store" where
  "startGame db roomId now =
     (case getDoc db roomId of
        None \<Rightarrow> Inl NotFound
      | Some room \<Rightarrow>
          (case guest room of
             None \<Rightarrow> Inl NotReady
           | Some g \<Rightarrow>
               if \<not> isReady (host room) \<or> \<not> isReady g then Inl NotReady
               else if secret_missing (host room) \<or> secret_missing g then Inl SecretsMissing
               else updateDoc db roomId (\<lambda>r. r\<lparr>status := Playing, updatedAt := now\<rparr>)))"

definition getRoom :: "store \<Rightarrow> string \<Rightarrow> Room option" where
  "getRoom db roomId = getDoc db roomId"

definition submitGuess :: "store \<Rightarrow> string \<Rightarrow> string \<Rightarrow> string \<Rightarrow> nat \<Rightarrow> RoomError + store" where
  "submitGuess db roomId playerUid g now =
     (case getDoc db roomId of
        None \<Rightarrow> Inl NotFound
      | Some room \<Rightarrow>
          if uid (host room) = playerUid then
            updateDoc db roomId
              (\<lambda>r. (host_field (\<lambda>p. p\<lparr>guesses := guesses (host room) @ [g]\<rparr>) r)
                     \<lparr>currentTurn := Guest, updatedAt := now\<rparr>)
          else if \<not> guest_uid_is room playerUid then Inl PlayerNotFound
          else
            updateDoc db roomId
              (\<lambda>r. (guest_field
                       (\<lambda>p. p\<lparr>guesses := (case guest room of None \<Rightarrow> [] | Some q \<Rightarrow> guesses q) @ [g]\<rparr>) r)
                     \<lparr>currentTurn := Host, updatedAt := now\<rparr>))"

definition finishGame :: "store \<Rightarrow> string \<Rightarrow> nat \<Rightarrow> RoomError + store" where
  "finishGame db roomId now = updateDoc db roomId (\<lambda>r. r\<lparr>status := Finished, updatedAt := now\<rparr>)"

definition deleteRoom :: "store \<Rightarrow> string \<Rightarrow> RoomError + store" where
  "deleteRoom db roomId = Inr (deleteDoc db roomId)"

definition updatePlayerActive :: "store \<Rightarrow> string \<Rightarrow> string \<Rightarrow> nat \<Rightarrow> RoomError + store" where
  "updatePlayerActive db roomId playerUid now =
     (case getDoc db roomId of
        None \<Rightarrow> Inr db
      | Some room \<Rightarrow>
          if uid (host room) = playerUid then
            updateDoc db roomId (\<lambda>r. (host_field (\<lambda>p. p\<lparr>lastActiveAt := now\<rparr>) r)\<lparr>updatedAt := now\<rparr>)
          else if guest_uid_is room playerUid then
            updateDoc db roomId (\<lambda>r. (guest_field (\<lambda>p. p\<lparr>lastActiveAt := now\<rparr>) r)\<lparr>updatedAt := now\<rparr>)
          else Inr db)"

subsection \<open>Sequences of operations\<close>

datatype Op =
  CreateRoom string CreateRoomData
| JoinRoom string string
| SetPlayerSecret string string string
| UpdatePlayerReady string string bool
| StartGame string
| SubmitGuess string string string
| FinishGame string
| DeleteRoom string
| UpdatePlayerActive string string

text \<open>One call of the service at time \<open>now\<close>: the store it leaves, or the error it throws.\<close>

fun exec :: "store \<Rightarrow> nat \<Rightarrow> Op \<Rightarrow> RoomError + store" where
  "exec db now (CreateRoom roomId d) = Inr (snd (createRoom db roomId now d))"
| "exec db now (JoinRoom roomId guestUid) =
     (case joinRoom db roomId guestUid now of Inl e \<Rightarrow> Inl e | Inr (b, db') \<Rightarrow> Inr db')"
| "exec db now (SetPlayerSecret roomId playerUid s) = setPlayerSecret db roomId playerUid s now"
| "exec db now (UpdatePlayerReady roomId playerUid ready) =
     updatePlayerReady db roomId playerUid ready now"
| "exec db now (StartGame roomId) = startGame db roomId now"
| "exec db now (SubmitGuess roomId playerUid g) = submitGuess db roomId playerUid g now"
| "exec db now (FinishGame roomId) = finishGame db roomId now"
| "exec db now (DeleteRoom roomId) = deleteRoom db roomId"
| "exec db now (UpdatePlayerActive roomId playerUid) = updatePlayerActive db roomId playerUid now"

text \<open>The store gives a new room an id no document has.\<close>

fun admissible :: "store \<Rightarrow> Op \<Rightarrow> bool" where
  "admissible db (CreateRoom roomId d) = (db roomId = None)"
| "admissible db (JoinRoom roomId guestUid) = True"
| "admissible db (SetPlayerSecret roomId playerUid s) = True"
| "admissible db (UpdatePlayerReady roomId playerUid ready) = True"
| "admissible db (StartGame roomId) = True"
| "admissible db (SubmitGuess roomId playerUid g) = True"
| "admissible db (FinishGame roomId) = True"
| "admissible db (DeleteRoom roomId) = True"
| "admissible db (UpdatePlayerActive roomId playerUid) = True"

text \<open>
  The stores the operations can produce from the empty collection. A call that
  throws writes nothing and leaves the store as it was.
\<close>

inductive reachable :: "store \<Rightarrow> bool" where
  reachable_empty: "reachable Map.empty"
| reachable_exec: "reachable db \<Longrightarrow> admissible db op \<Longrightarrow> exec db now op = Inr db' \<Longrightarrow> reachable db'"

text \<open>The order \<open>waiting\<close>, \<open>playing\<close>, \<open>finished\<close> of the status.\<close>

fun status_rank :: "RoomStatus \<Rightarrow> nat" where
  "status_rank Waiting = 0"
| "status_rank Playing = 1"
| "status_rank Finished = 2"

text \<open>
  A list of calls with their times, run in order; \<open>None\<close> when a call throws or a new
  room is given an id in use.
\<close>

fun run :: "store \<Rightarrow> (nat \<times> Op) list \<Rightarrow> store option" where
  "run db [] = Some db"
| "run db ((now, op) # rest) =
     (if admissible db op then
        (case exec db now op of Inl e \<Rightarrow> None | Inr db' \<Rightarrow> run db' rest)
      else None)"

text \<open>The status of \<open>room'\<close> is not earlier in that order than the status of \<open>room\<close>.\<close>

definition status_forward :: "Room \<Rightarrow> Room \<Rightarrow> bool" where
  "status_forward room room' = (status_rank (status room) \<le> status_rank (status room'))"

subsection \<open>Two rooms the operations produce\<close>

text \<open>
  A room in which a guest has joined and both players have set a secret and declared
  themselves ready, and the same room after \<open>startGame\<close> and \<open>finishGame\<close>.
\<close>

definition hostData :: CreateRoomData where
  "hostData = \<lparr>config_data = defaultConfig, hostUid = ''h''\<rparr>"

definition readyRoom :: Room where
  "readyRoom =
     \<lparr>id_room = ''r'', status = Waiting, config = defaultConfig,
      host = \<lparr>uid = ''h'', role = Host, isReady = True, secret = Some ''1234'',
               guesses = [], lastActiveAt = 1\<rparr>,
      guest = Some \<lparr>uid = ''g'', role = Guest, isReady = True, secret = Some ''5678'',
                     guesses = [], lastActiveAt = 2\<rparr>,
      currentTurn = Host, createdAt = 1, updatedAt = 6\<rparr>"

definition finishedRoom :: Room where
  "finishedRoom = readyRoom\<lparr>status := Finished, updatedAt := 8\<rparr>"

section \<open>Properties of the game logic\<close>

subsection \<open>Facts about the string operations\<close>

lemma startsWith_single: "startsWith s [c] = (\<exists>cs. s = c # cs)"
  by (cases s) auto

lemma str_includes_single: "str_includes s [c] = (c \<in> set s)"
  by (induction s) (auto simp: startsWith_single)

lemma str_at_in_range: "i < length s \<Longrightarrow> str_at s i = Some (s ! i)"
  by (simp add: str_at_def)

subsection \<open>The loop of checkGuess\<close>

lemma checkGuess_loop_counts:
  "length s = length g \<Longrightarrow> i \<le> length s \<Longrightarrow>
    checkGuess_loop s g i r =
      \<lparr>hit = hit r + length (filter (\<lambda>j. s ! j = g ! j) [i..<length s]),
       blow = blow r + length (filter (\<lambda>j. s ! j \<noteq> g ! j \<and> g ! j \<in> set s) [i..<length s])\<rparr>"
proof (induction s g i r rule: checkGuess_loop.induct)
  case (1 s g i r)
  show ?case
  proof (cases "i < length s")
    case False
    with "1.prems" have "i = length s" by simp
    then show ?thesis
      by (subst checkGuess_loop.simps) simp
  next
    case True
    have at_s: "str_at s i = Some (s ! i)"
      using True by (simp add: str_at_in_range)
    have at_g: "str_at g i = Some (g ! i)"
      using True "1.prems" by (simp add: str_at_in_range)
    have upt: "[i..<length s] = i # [i + 1..<length s]"
      using True by (simp add: upt_conv_Cons)
    have le: "i + 1 \<le> length s" using True by simp
    show ?thesis
    proof (cases "s ! i = g ! i")
      case eq: True
      have "checkGuess_loop s g i r = checkGuess_loop s g (i + 1) (r\<lparr>hit := hit r + 1\<rparr>)"
        using True eq at_s at_g by (subst checkGuess_loop.simps) simp
      also have "\<dots> = \<lparr>hit = hit (r\<lparr>hit := hit r + 1\<rparr>) + length (filter (\<lambda>j. s ! j = g ! j) [i + 1..<length s]),
       blow = blow (r\<lparr>hit := hit r + 1\<rparr>) + length (filter (\<lambda>j. s ! j \<noteq> g ! j \<and> g ! j \<in> set s) [i + 1..<length s])\<rparr>"
        using "1.IH"(1) True eq at_s at_g "1.prems"(1) le by simp
      finally show ?thesis using eq by (simp add: upt)
    next
      case neq: False
      show ?thesis
      proof (cases "g ! i \<in> set s")
        case mem: True
        have inc: "str_includes s (toSearchString (str_at g i))"
          using mem by (simp add: at_g toSearchString_def str_includes_single)
        have "checkGuess_loop s g i r = checkGuess_loop s g (i + 1) (r\<lparr>blow := blow r + 1\<rparr>)"
          using True neq at_s at_g inc by (subst checkGuess_loop.simps) simp
        also have "\<dots> = \<lparr>hit = hit (r\<lparr>blow := blow r + 1\<rparr>) + length (filter (\<lambda>j. s ! j = g ! j) [i + 1..<length s]),
       blow = blow (r\<lparr>blow := blow r + 1\<rparr>) + length (filter (\<lambda>j. s ! j \<noteq> g ! j \<and> g ! j \<in> set s) [i + 1..<length s])\<rparr>"
          using "1.IH"(2) True neq at_s at_g inc "1.prems"(1) le by simp
        finally show ?thesis using neq mem by (simp add: upt)
      next
        case nmem: False
        have inc: "\<not> str_includes s (toSearchString (str_at g i))"
          using nmem by (simp add: at_g toSearchString_def str_includes_single)
        have "checkGuess_loop s g i r = checkGuess_loop s g (i + 1) r"
          using True neq at_s at_g inc by (subst checkGuess_loop.simps) simp
        also have "\<dots> = \<lparr>hit = hit r + length (filter (\<lambda>j. s ! j = g ! j) [i + 1..<length s]),
       blow = blow r + length (filter (\<lambda>j. s ! j \<noteq> g ! j \<and> g ! j \<in> set s) [i + 1..<length s])\<rparr>"
          using "1.IH"(3) True neq at_s at_g inc "1.prems"(1) le by simp
        finally show ?thesis using neq nmem by (simp add: upt)
      qed
    qed
  qed
qed

text \<open>
  C1. For strings of equal length, \<open>checkGuess\<close> returns as \<open>hit\<close> the number of
  positions where secret and guess agree, and as \<open>blow\<close> the number of positions
  where they differ and the guess's character occurs somewhere in the secret; and
  \<open>checkGuess "1234" "1243"\<close> is \<open>{hit: 2, blow: 2}\<close>.
\<close>

theorem checkGuess_counts:
  assumes "length s = length g"
  shows "hit (checkGuess s g) = length (hitPositions s g)
       \<and> blow (checkGuess s g) = length (blowPositions s g)
       \<and> checkGuess ''1234'' ''1243'' = \<lparr>hit = 2, blow = 2\<rparr>"
proof -
  have "checkGuess s g =
      \<lparr>hit = length (hitPositions s g), blow = length (blowPositions s g)\<rparr>"
    using checkGuess_loop_counts [OF assms, of 0 "\<lparr>hit = 0, blow = 0\<rparr>"]
    by (simp add: checkGuess_def hitPositions_def blowPositions_def)
  moreover have "checkGuess ''1234'' ''1243'' = \<lparr>hit = 2, blow = 2\<rparr>"
    by (simp add: checkGuess_def checkGuess_loop.simps str_at_def toSearchString_def)
  ultimately show ?thesis by simp
qed

theorem checkGuess_counts_witness:
  "length ''1234'' = length ''4321''
   \<and> hitPositions ''1234'' ''4321'' = []
   \<and> blowPositions ''1234'' ''4321'' = [0, 1, 2, 3]
   \<and> hit (checkGuess ''1234'' ''4321'') = 0
   \<and> blow (checkGuess ''1234'' ''4321'') = 4"
proof -
  have len: "length ''1234'' = length ''4321''" by simp
  have h: "hitPositions ''1234'' ''4321'' = []"
    by (simp add: hitPositions_def upt_conv_Cons)
  have b: "blowPositions ''1234'' ''4321'' = [0, 1, 2, 3]"
    by (simp add: blowPositions_def upt_conv_Cons)
  show ?thesis
    using checkGuess_counts [OF len] h b by simp
qed

text \<open>
  C6. There are digit strings of equal length, both with a repeated digit, for which
  \<open>checkGuess\<close> reports more blows than the strict rule allows: for the secret
  \<open>1122\<close> and the guess \<open>1111\<close> it reports two, the strict rule none.
\<close>

theorem checkGuess_overcounts_blow:
  "\<exists>s g. length s = length g \<and> list_all isDigit s \<and> list_all isDigit g
     \<and> \<not> distinct s \<and> \<not> distinct g
     \<and> strictMastermindBlow s g < blow (checkGuess s g)"
proof -
  have c: "checkGuess ''1122'' ''1111'' = \<lparr>hit = 2, blow = 2\<rparr>"
    by (simp add: checkGuess_def checkGuess_loop.simps str_at_def toSearchString_def)
  have r1: "remaining ''1122'' ''1111'' = ''22''"
    by (simp add: remaining_def upt_conv_Cons)
  have r2: "remaining ''1111'' ''1122'' = ''11''"
    by (simp add: remaining_def upt_conv_Cons)
  have m: "strictMastermindBlow ''1122'' ''1111'' = 0"
    by (simp add: strictMastermindBlow_def r1 r2)
  have "length ''1122'' = length ''1111'' \<and> list_all isDigit ''1122'' \<and> list_all isDigit ''1111''
     \<and> \<not> distinct ''1122'' \<and> \<not> distinct ''1111''
     \<and> strictMastermindBlow ''1122'' ''1111'' < blow (checkGuess ''1122'' ''1111'')"
    by (simp add: c m isDigit_def)
  then show ?thesis by blast
qed


subsection \<open>validateGuess\<close>

lemma test_digits_only_iff:
  "test_digits_only g = (g \<noteq> [] \<and> \<not> list_ex (\<lambda>c. \<not> isDigit c) g)"
  by (simp add: test_digits_only_def list_all_iff list_ex_iff)

lemma uniqueDigits_size_le: "uniqueDigits_size g \<le> length g"
  by (simp add: uniqueDigits_size_def)

lemma uniqueDigits_size_card: "uniqueDigits_size g = card (set g)"
  by (simp add: uniqueDigits_size_def length_remdups_card_conv)

text \<open>
  C8. For a configuration of the data model (\<open>digits\<close> at least one), \<open>validateGuess\<close>
  checks the length first, then for a character that is not a digit, then, when
  duplicates are not allowed, for fewer distinct characters than \<open>digits\<close>; it
  returns the reason of the first check that fails, and \<open>None\<close> when none does.
\<close>

theorem validateGuess_order:
  assumes "1 \<le> digits cfg"
  shows "validateGuess g cfg =
     (if int (length g) \<noteq> digits cfg then Some WrongLength
      else if list_ex (\<lambda>c. \<not> isDigit c) g then Some NonDigitCharacter
      else if \<not> allowDuplicate cfg \<and> int (card (set g)) < digits cfg
        then Some DuplicateNotAllowed
      else None)"
proof (cases "int (length g) = digits cfg")
  case False
  then show ?thesis by (simp add: validateGuess_def)
next
  case True
  with assms have ne: "g \<noteq> []" by auto
  have le: "int (uniqueDigits_size g) \<le> digits cfg"
    using True uniqueDigits_size_le [of g] by simp
  show ?thesis
    using True ne le
    by (simp add: validateGuess_def test_digits_only_iff uniqueDigits_size_card)
qed

theorem validateGuess_order_witness:
  "1 \<le> digits defaultConfig
   \<and> validateGuess ''123'' defaultConfig = Some WrongLength
   \<and> validateGuess ''12a4'' defaultConfig = Some NonDigitCharacter
   \<and> validateGuess ''1123'' defaultConfig = Some DuplicateNotAllowed
   \<and> validateGuess ''1234'' defaultConfig = None"
proof -
  have d: "1 \<le> digits defaultConfig" by (simp add: defaultConfig_def)
  show ?thesis
    using validateGuess_order [OF d, of "''123''"] validateGuess_order [OF d, of "''12a4''"]
      validateGuess_order [OF d, of "''1123''"] validateGuess_order [OF d, of "''1234''"]
    by (simp add: defaultConfig_def isDigit_def)
qed

text \<open>
  Outside the data model, with \<open>digits = 0\<close>, the empty input has the right length and
  is refused by the regular expression, which asks for at least one digit.
\<close>

lemma validateGuess_empty_zero:
  "validateGuess [] \<lparr>digits = 0, allowDuplicate = d\<rparr> = Some NonDigitCharacter"
  by (simp add: validateGuess_def test_digits_only_def)

subsection \<open>generateRandomSecret\<close>

text \<open>The doubles of the model and the numbers they stand for.\<close>

lemma bit_length_0: "bit_length 0 = 0"
  by (simp add: bit_length.simps)

lemma bit_length_lower: "n \<noteq> 0 \<Longrightarrow> 2 ^ (bit_length n - 1) \<le> n"
proof (induction n rule: bit_length.induct)
  case (1 n)
  show ?case
  proof (cases "n div 2 = 0")
    case True
    with "1.prems" have "n = 1" by (cases n) auto
    then show ?thesis by (simp add: bit_length.simps)
  next
    case False
    then have ih: "2 ^ (bit_length (n div 2) - 1) \<le> n div 2"
      using "1.IH" "1.prems" by simp
    have pos: "0 < bit_length (n div 2)"
      using False by (subst bit_length.simps) simp
    have "bit_length n = Suc (bit_length (n div 2))"
      using "1.prems" by (subst bit_length.simps) simp
    then have "2 ^ (bit_length n - 1) = 2 * 2 ^ (bit_length (n div 2) - 1)"
      using pos by (cases "bit_length (n div 2)") simp_all
    also have "\<dots> \<le> 2 * (n div 2)" using ih by simp
    also have "\<dots> \<le> n" by simp
    finally show ?thesis .
  qed
qed

lemma bit_length_upper: "n < 2 ^ bit_length n"
proof (induction n rule: bit_length.induct)
  case (1 n)
  show ?case
  proof (cases "n = 0")
    case True
    then show ?thesis by simp
  next
    case False
    then have "n div 2 < 2 ^ bit_length (n div 2)" by (rule "1.IH")
    then have "n < 2 * 2 ^ bit_length (n div 2)" by linarith
    then show ?thesis using False by (subst bit_length.simps) simp
  qed
qed

lemma times_number_significand: "significand d < 2 ^ 53 \<Longrightarrow> significand (times_number d n) \<le> 2 ^ 53"
proof -
  assume d: "significand d < 2 ^ 53"
  define p where "p = significand d * n"
  define s where "s = bit_length p - 53"
  have sig: "significand (times_number d n) = round_half_even p s"
    by (simp add: times_number_def Let_def p_def s_def)
  show ?thesis
  proof (cases "s = 0")
    case True
    then have "bit_length p \<le> 53" by (simp add: s_def)
    then have "(2::nat) ^ bit_length p \<le> 2 ^ 53"
      by (simp only: power_increasing_iff)
    with bit_length_upper [of p] have "p < 2 ^ 53" by linarith
    then show ?thesis using True by (simp add: sig round_half_even_def)
  next
    case False
    then have bl: "bit_length p = 53 + s" by (simp add: s_def)
    have "p < 2 ^ 53 * 2 ^ s"
      using bit_length_upper [of p] by (simp only: bl power_add)
    then have "p div 2 ^ s < 2 ^ 53"
      by (simp add: less_mult_imp_div_less)
    moreover have "round_half_even p s \<le> p div 2 ^ s + 1"
      by (simp add: round_half_even_def Let_def)
    ultimately show ?thesis by (simp add: sig)
  qed
qed

lemma Math_floor_value: "Math_floor d = \<lfloor>number_value d\<rfloor>"
proof (cases "0 \<le> exponent d")
  case True
  then have "number_value d = real_of_int (int (significand d * 2 ^ nat (exponent d)))"
    by (simp add: number_value_def power_int_def)
  then have "\<lfloor>number_value d\<rfloor> = int (significand d * 2 ^ nat (exponent d))"
    by (simp only: floor_of_int)
  then show ?thesis using True by (simp only: Math_floor_def if_True)
next
  case False
  then have "number_value d = real (significand d) / real (2 ^ nat (- exponent d))"
    by (simp add: number_value_def power_int_def field_simps)
  then have "\<lfloor>number_value d\<rfloor> = int (significand d div 2 ^ nat (- exponent d))"
    by (simp only: floor_divide_of_nat_eq)
  then show ?thesis using False by (simp only: Math_floor_def if_False)
qed

lemma is_random_value:
  assumes "is_random d"
  shows "0 \<le> number_value d \<and> number_value d < 1"
proof -
  define k where "k = nat (- exponent d)"
  have e: "exponent d = - int k" and m: "significand d < 2 ^ k"
    using assms by (simp_all add: is_random_def k_def)
  have v: "number_value d = real (significand d) / 2 ^ k"
    by (simp add: number_value_def e power_int_minus field_simps)
  have "real (significand d) < 2 ^ k"
    using m by (metis of_nat_less_iff of_nat_numeral of_nat_power)
  then show ?thesis by (simp add: v)
qed

lemma is_random_complete:
  assumes "m < 2 ^ 53" and "- 1074 \<le> e" and "real m * 2 powi e < 1"
  shows "\<exists>d. is_random d \<and> number_value d = real m * 2 powi e"
proof (cases "m = 0")
  case True
  then have "is_random \<lparr>significand = 0, exponent = 0\<rparr>
      \<and> number_value \<lparr>significand = 0, exponent = 0\<rparr> = real m * 2 powi e"
    by (simp add: is_random_def number_value_def)
  then show ?thesis by blast
next
  case False
  then have m1: "1 \<le> real m" by simp
  have neg: "e \<le> 0"
  proof (rule ccontr)
    assume "\<not> e \<le> 0"
    then have "(1::real) \<le> 2 powi e" by (simp add: one_le_power_int)
    with m1 have "1 * 1 \<le> real m * 2 powi e" by (intro mult_mono) simp_all
    with assms(3) show False by simp
  qed
  define k where "k = nat (- e)"
  have e: "e = - int k" using neg by (simp add: k_def)
  have "real m * 2 powi e = real m / 2 ^ k"
    by (simp add: e power_int_minus field_simps)
  with assms(3) have "real m < 2 ^ k" by (simp add: field_simps)
  then have "m < 2 ^ k"
    by (metis of_nat_less_iff of_nat_numeral of_nat_power)
  then have "is_random \<lparr>significand = m, exponent = e\<rparr>
      \<and> number_value \<lparr>significand = m, exponent = e\<rparr> = real m * 2 powi e"
    using assms(1,2) neg by (simp add: is_random_def number_value_def k_def)
  then show ?thesis by blast
qed

text \<open>
  The product is exact when it fits into 53 binary digits, and otherwise differs from
  the exact product by at most half a unit of its last digit.
\<close>

lemma times_number_exact:
  assumes "bit_length (significand d * n) \<le> 53"
  shows "number_value (times_number d n) = number_value d * real n"
  using assms
  by (simp add: times_number_def Let_def number_value_def round_half_even_def)

lemma round_half_even_near:
  assumes "0 < s"
  shows "\<bar>int (round_half_even p s * 2 ^ s) - int p\<bar> * 2 \<le> 2 ^ s"
proof -
  define q where "q = p div 2 ^ s"
  define r where "r = p mod 2 ^ s"
  define h :: nat where "h = 2 ^ (s - 1)"
  have two: "(2::nat) ^ s = 2 * h"
    using assms by (cases s) (simp_all add: h_def)
  have p: "p = q * 2 ^ s + r"
    unfolding q_def r_def by (rule div_mult_mod_eq [symmetric])
  have two_int: "(2::int) ^ s = 2 * int h"
    using assms by (cases s) (simp_all add: h_def)
  have rlt: "r < 2 * h" unfolding r_def two [symmetric] by simp
  have "round_half_even p s = q \<and> r \<le> h \<or> round_half_even p s = q + 1 \<and> h \<le> r"
    using assms by (auto simp: round_half_even_def Let_def q_def r_def h_def)
  then show ?thesis
  proof
    assume a: "round_half_even p s = q \<and> r \<le> h"
    then have "int (round_half_even p s * 2 ^ s) - int p = - int r"
      using p by simp
    then show ?thesis using a by (simp add: two_int)
  next
    assume a: "round_half_even p s = q + 1 \<and> h \<le> r"
    then have "int (round_half_even p s * 2 ^ s) = int p - int r + 2 * int h"
      using p by (simp add: two)
    then have "int (round_half_even p s * 2 ^ s) - int p = 2 * int h - int r" by simp
    then show ?thesis using a rlt by (simp add: two_int)
  qed
qed

lemma times_number_nearest:
  "\<bar>number_value (times_number d n) - number_value d * real n\<bar> * 2
     \<le> 2 powi exponent (times_number d n)"
proof (cases "bit_length (significand d * n) \<le> 53")
  case True
  then show ?thesis by (simp add: times_number_exact)
next
  case False
  define p where "p = significand d * n"
  define s where "s = bit_length p - 53"
  let ?e = "exponent d"
  have s: "0 < s" using False by (simp add: s_def p_def)
  have tn: "times_number d n = \<lparr>significand = round_half_even p s, exponent = ?e + int s\<rparr>"
    by (simp add: times_number_def Let_def p_def s_def)
  have pw: "(2::real) powi (?e + int s) = 2 powi ?e * 2 ^ s"
    by (simp add: power_int_add)
  have nv: "number_value (times_number d n) = 2 powi ?e * real (round_half_even p s * 2 ^ s)"
    by (simp add: tn number_value_def pw mult_ac)
  have ex: "number_value d * real n = 2 powi ?e * real p"
    by (simp add: number_value_def p_def mult_ac)
  have "number_value (times_number d n) - number_value d * real n
      = 2 powi ?e * (real (round_half_even p s * 2 ^ s) - real p)"
    by (simp only: nv ex right_diff_distrib)
  also have "\<dots> = 2 powi ?e * real_of_int (int (round_half_even p s * 2 ^ s) - int p)"
    by simp
  finally have "\<bar>number_value (times_number d n) - number_value d * real n\<bar> * 2
      = 2 powi ?e * real_of_int (\<bar>int (round_half_even p s * 2 ^ s) - int p\<bar> * 2)"
    by (simp add: abs_mult)
  also have "\<dots> \<le> 2 powi ?e * real_of_int (2 ^ s)"
    using round_half_even_near [OF s, of p]
    by (intro mult_left_mono) (simp_all only: of_int_le_iff zero_le_power_int zero_le_numeral)
  also have "\<dots> = 2 powi exponent (times_number d n)"
    by (simp add: tn pw)
  finally show ?thesis .
qed

text \<open>
  The index the loop computes lies inside the pool: the rounded product of a double
  below one and \<open>n\<close> is below \<open>n\<close>.
\<close>

lemma round_half_even_upper:
  "0 < s \<Longrightarrow> round_half_even p s * 2 ^ s \<le> p + 2 ^ (s - 1)"
proof -
  assume s: "0 < s"
  define q where "q = p div 2 ^ s"
  define r where "r = p mod 2 ^ s"
  define h :: nat where "h = 2 ^ (s - 1)"
  have two: "(2::nat) ^ s = 2 * h"
    using s by (cases s) (simp_all add: h_def)
  have p: "p = q * 2 ^ s + r"
    unfolding q_def r_def by (rule div_mult_mod_eq [symmetric])
  have down: "q * 2 ^ s \<le> p + h" using p by simp
  have up: "h \<le> r \<Longrightarrow> (q + 1) * 2 ^ s \<le> p + h"
  proof -
    assume "h \<le> r"
    have "(q + 1) * 2 ^ s = q * 2 ^ s + 2 * h" by (simp add: two)
    also have "\<dots> \<le> q * 2 ^ s + r + h" using \<open>h \<le> r\<close> by simp
    also have "\<dots> = p + h" using p by simp
    finally show ?thesis .
  qed
  have "round_half_even p s = q \<or> round_half_even p s = q + 1 \<and> h \<le> r"
    using s by (auto simp: round_half_even_def Let_def q_def r_def h_def)
  then show ?thesis
    using down up by (auto simp: h_def)
qed

lemma rounded_product_below:
  assumes "is_random d" and "0 < n"
  shows "significand (times_number d n) * 2 ^ (bit_length (significand d * n) - 53)
           < n * 2 ^ nat (- exponent d)"
proof -
  define m where "m = significand d"
  define k where "k = nat (- exponent d)"
  define p where "p = m * n"
  define s where "s = bit_length p - 53"
  have m53: "m < 2 ^ 53" and mk: "m < 2 ^ k"
    using assms(1) by (simp_all add: is_random_def m_def k_def)
  have sig: "significand (times_number d n) = round_half_even p s"
    by (simp add: times_number_def Let_def p_def s_def m_def)
  have bound: "p + n \<le> n * 2 ^ k"
  proof -
    have "p + n = (m + 1) * n" by (simp add: p_def)
    also have "\<dots> \<le> 2 ^ k * n" using mk by (intro mult_right_mono) simp_all
    finally show ?thesis by (simp add: mult.commute)
  qed
  have "round_half_even p s * 2 ^ s < n * 2 ^ k"
  proof (cases "s = 0")
    case True
    then show ?thesis using bound assms(2) by (simp add: round_half_even_def)
  next
    case False
    then have s: "0 < s" by simp
    then have bl: "bit_length p = s + 53" by (simp add: s_def)
    have "p \<noteq> 0"
    proof
      assume "p = 0"
      then have "bit_length p = 0" by (simp add: bit_length_0)
      with bl show False by simp
    qed
    then have "2 ^ (bit_length p - 1) \<le> p" by (rule bit_length_lower)
    moreover have "bit_length p - 1 = s + 52" using bl by simp
    ultimately have "(2::nat) ^ (s + 52) \<le> p" by (simp only:)
    also have "p < 2 ^ 53 * n" using m53 assms(2) by (simp add: p_def)
    finally have lt: "(2::nat) ^ (s + 52) < 2 ^ 53 * n" .
    have "s + 52 = 53 + (s - 1)" using s by simp
    then have "(2::nat) ^ (s + 52) = 2 ^ 53 * 2 ^ (s - 1)" by (simp only: power_add)
    with lt have "(2::nat) ^ 53 * 2 ^ (s - 1) < 2 ^ 53 * n" by (simp only:)
    then have half: "2 ^ (s - 1) < n" by (simp only: mult_less_cancel1)
    have "round_half_even p s * 2 ^ s \<le> p + 2 ^ (s - 1)"
      using s by (rule round_half_even_upper)
    also have "\<dots> < p + n" using half by simp
    finally show ?thesis using bound by simp
  qed
  then show ?thesis
    by (simp add: sig s_def p_def m_def k_def)
qed

lemma random_index_range:
  assumes "is_random d" and "0 < n"
  shows "0 \<le> Math_floor (times_number d n) \<and> Math_floor (times_number d n) < int n"
proof -
  define k where "k = nat (- exponent d)"
  define s where "s = bit_length (significand d * n) - 53"
  define q where "q = significand (times_number d n)"
  have e: "exponent d = - int k"
    using assms(1) by (simp add: is_random_def k_def)
  have ex: "exponent (times_number d n) = int s - int k"
    by (simp add: times_number_def Let_def s_def e)
  have below: "q * 2 ^ s < n * 2 ^ k"
    using rounded_product_below [OF assms] by (simp add: q_def s_def k_def)
  have nonneg: "0 \<le> Math_floor (times_number d n)"
    by (simp add: Math_floor_def)
  have "Math_floor (times_number d n) < int n"
  proof (cases "k \<le> s")
    case True
    then have fl: "Math_floor (times_number d n) = int (q * 2 ^ (s - k))"
      by (simp add: Math_floor_def ex q_def nat_diff_distrib')
    have "(2::nat) ^ s = 2 ^ (s - k) * 2 ^ k"
      using True by (simp add: power_add [symmetric])
    then have "q * 2 ^ s = q * 2 ^ (s - k) * 2 ^ k" by (simp only: mult.assoc)
    with below have "q * 2 ^ (s - k) * 2 ^ k < n * 2 ^ k" by (simp only:)
    then have "q * 2 ^ (s - k) < n" by (simp only: mult_less_cancel2)
    then have "int (q * 2 ^ (s - k)) < int n" by (simp only: of_nat_less_iff)
    then show ?thesis by (simp only: fl)
  next
    case False
    then have lt: "s < k" by simp
    then have fl: "Math_floor (times_number d n) = int (q div 2 ^ (k - s))"
      by (simp add: Math_floor_def ex q_def nat_diff_distrib')
    have "(2::nat) ^ k = 2 ^ (k - s) * 2 ^ s"
      using lt by (simp add: power_add [symmetric])
    then have "n * 2 ^ k = n * 2 ^ (k - s) * 2 ^ s" by (simp only: mult.assoc)
    with below have "q * 2 ^ s < n * 2 ^ (k - s) * 2 ^ s" by (simp only:)
    then have "q < n * 2 ^ (k - s)" by (simp only: mult_less_cancel2)
    then have "q div 2 ^ (k - s) < n"
      by (simp add: less_mult_imp_div_less)
    then have "int (q div 2 ^ (k - s)) < int n" by (simp only: of_nat_less_iff)
    then show ?thesis by (simp only: fl)
  qed
  with nonneg show ?thesis by simp
qed

lemma splice1_in_range:
  assumes "0 \<le> i" "i < int (length xs)"
  shows "splice1 xs i = take (nat i) xs @ drop (nat i + 1) xs"
  using assms by (simp add: splice1_def Let_def min_def)

lemma arr_at_in_range:
  assumes "0 \<le> i" "i < int (length xs)"
  shows "arr_at xs i = Some (xs ! nat i)"
  using assms by (simp add: arr_at_def)

lemma distinct_remove_nth:
  assumes "distinct xs" "j < length xs"
  shows "distinct (take j xs @ drop (j + 1) xs) \<and> xs ! j \<notin> set (take j xs @ drop (j + 1) xs)
       \<and> set (take j xs @ drop (j + 1) xs) \<subseteq> set xs
       \<and> length (take j xs @ drop (j + 1) xs) = length xs - 1"
proof -
  have xs: "xs = take j xs @ xs ! j # drop (j + 1) xs"
    using assms(2) by (simp add: id_take_nth_drop)
  have d: "distinct (take j xs @ xs ! j # drop (j + 1) xs)"
    using assms(1) xs by simp
  have s: "set (take j xs @ drop (j + 1) xs) \<subseteq> set xs"
    by (auto dest: in_set_takeD in_set_dropD)
  show ?thesis using d s assms(2) by auto
qed

lemma generate_loop_dup:
  assumes rnd: "\<forall>k. is_random (rnd k)"
    and len: "length xs = 10" and small: "list_all (\<lambda>d. d < 10) xs"
  shows "int (length result) \<le> n \<Longrightarrow> digit_values result \<Longrightarrow>
     int (length (generate_loop rnd n True xs result k)) = n
     \<and> digit_values (generate_loop rnd n True xs result k)"
proof (induction "nat (n - int (length result))" arbitrary: result k)
  case 0
  then have "\<not> int (length result) < n" by simp
  then show ?case using 0 by (subst (1 2) generate_loop.simps) simp
next
  case (Suc m)
  then have lt: "int (length result) < n" by simp
  let ?i = "Math_floor (times_number (rnd k) 10)"
  have rng: "0 \<le> ?i \<and> ?i < int (length xs)"
    using random_index_range [of "rnd k" 10] rnd len by simp
  then have "nat ?i < length xs" by linarith
  then have "xs ! nat ?i \<in> set xs" by (rule nth_mem)
  then have lt10: "xs ! nat ?i < 10"
    using small by (simp add: list_all_iff)
  have at: "arr_at xs ?i = Some (xs ! nat ?i)"
    using rng by (simp add: arr_at_in_range)
  let ?r = "result @ [arr_at xs ?i]"
  have dv: "digit_values ?r"
    using Suc.prems(2) lt10 by (simp add: digit_values_def at)
  have m: "m = nat (n - int (length ?r))"
    using Suc.hyps(2) by simp
  have le: "int (length ?r) \<le> n" using lt by simp
  have unfold: "generate_loop rnd n True xs result k = generate_loop rnd n True xs ?r (k + 1)"
    using lt by (subst generate_loop.simps) (simp add: Let_def)
  show ?case
    unfolding unfold using Suc.hyps(1) [OF m le dv] by simp
qed

lemma generate_loop_nodup:
  assumes rnd: "\<forall>k. is_random (rnd k)" and n10: "n \<le> 10"
  shows "int (length result) \<le> n \<Longrightarrow> digit_values result \<Longrightarrow> distinct result \<Longrightarrow>
     distinct xs \<Longrightarrow> list_all (\<lambda>d. d < 10) xs \<Longrightarrow> length xs + length result = 10 \<Longrightarrow>
     list_all (\<lambda>d. Some d \<notin> set result) xs \<Longrightarrow>
     int (length (generate_loop rnd n False xs result k)) = n
     \<and> digit_values (generate_loop rnd n False xs result k)
     \<and> distinct (generate_loop rnd n False xs result k)"
proof (induction "nat (n - int (length result))" arbitrary: result xs k)
  case 0
  then have "\<not> int (length result) < n" by simp
  then show ?case using 0 by (subst (1 2 3) generate_loop.simps) simp
next
  case (Suc m)
  then have lt: "int (length result) < n" by simp
  with n10 Suc.prems(6) have pos: "0 < length xs" by linarith
  let ?i = "Math_floor (times_number (rnd k) (length xs))"
  have rng: "0 \<le> ?i \<and> ?i < int (length xs)"
    using random_index_range [of "rnd k" "length xs"] rnd pos by simp
  then have j: "nat ?i < length xs" by linarith
  then have mem: "xs ! nat ?i \<in> set xs" by (rule nth_mem)
  then have lt10: "xs ! nat ?i < 10"
    using Suc.prems(5) by (simp add: list_all_iff)
  have fresh: "Some (xs ! nat ?i) \<notin> set result"
    using Suc.prems(7) mem by (simp add: list_all_iff)
  have at: "arr_at xs ?i = Some (xs ! nat ?i)"
    using rng by (simp add: arr_at_in_range)
  have sp: "splice1 xs ?i = take (nat ?i) xs @ drop (nat ?i + 1) xs"
    using rng by (simp add: splice1_in_range)
  note rem = distinct_remove_nth [OF Suc.prems(4) j, folded sp]
  let ?r = "result @ [arr_at xs ?i]"
  let ?xs = "splice1 xs ?i"
  have dv: "digit_values ?r"
    using Suc.prems(2) lt10 by (simp add: digit_values_def at)
  have dr: "distinct ?r"
    using Suc.prems(3) fresh by (simp add: at)
  have dx: "distinct ?xs" using rem by simp
  have sx: "list_all (\<lambda>d. d < 10) ?xs"
    using rem Suc.prems(5) by (auto simp: list_all_iff)
  have "length ?xs = length xs - 1" using rem by simp
  moreover have "length ?r = length result + 1" by simp
  ultimately have lx: "length ?xs + length ?r = 10"
    using Suc.prems(6) pos by arith
  have fx: "list_all (\<lambda>d. Some d \<notin> set ?r) ?xs"
    using rem Suc.prems(7) by (auto simp: list_all_iff at)
  have m: "m = nat (n - int (length ?r))"
    using Suc.hyps(2) by simp
  have le: "int (length ?r) \<le> n" using lt by simp
  have unfold: "generate_loop rnd n False xs result k = generate_loop rnd n False ?xs ?r (k + 1)"
    using lt by (subst generate_loop.simps) (simp add: Let_def)
  show ?case
    unfolding unfold using Suc.hyps(1) [OF m le dv dr dx sx lx fx] by simp
qed

lemma number_toString_digit: "d < 10 \<Longrightarrow> number_toString d = [digit_char d]"
  by (subst number_toString.simps) simp

lemma digit_char_isDigit: "d < 10 \<Longrightarrow> isDigit (digit_char d)"
proof -
  assume "d < 10"
  then have "d < length ''0123456789''" by simp
  then have "''0123456789'' ! d \<in> set ''0123456789''" by (rule nth_mem)
  then show ?thesis by (simp only: isDigit_def digit_char_def)
qed

lemma digit_char_inj: "d < 10 \<Longrightarrow> e < 10 \<Longrightarrow> digit_char d = digit_char e \<Longrightarrow> d = e"
proof -
  assume a: "d < 10" "e < 10" "digit_char d = digit_char e"
  have dist: "distinct ''0123456789''" by simp
  have "d < length ''0123456789''" "e < length ''0123456789''" using a by simp_all
  then show ?thesis
    using a(3) nth_eq_iff_index_eq [OF dist] by (simp only: digit_char_def)
qed

lemma join_empty_digits:
  "digit_values vs \<Longrightarrow> join_empty vs = map (\<lambda>v. digit_char (the v)) vs"
  by (induction vs)
    (auto simp: digit_values_def join_empty_def number_toString_digit split: option.splits)

lemma join_empty_shape:
  assumes "digit_values vs"
  shows "length (join_empty vs) = length vs" and "list_all isDigit (join_empty vs)"
    and "distinct vs \<Longrightarrow> distinct (join_empty vs)"
proof -
  note eq = join_empty_digits [OF assms]
  show "length (join_empty vs) = length vs" by (simp add: eq)
  show "list_all isDigit (join_empty vs)"
    using assms
    by (auto simp: eq digit_values_def list_all_iff digit_char_isDigit split: option.splits)
  show "distinct (join_empty vs)" if "distinct vs"
  proof -
    have "inj_on (\<lambda>v. digit_char (the v)) (set vs)"
    proof (rule inj_onI)
      fix v w
      assume v: "v \<in> set vs" and w: "w \<in> set vs"
        and eq: "digit_char (the v) = digit_char (the w)"
      from assms v obtain d where d: "v = Some d" "d < 10"
        by (auto simp: digit_values_def list_all_iff split: option.splits)
      from assms w obtain e where e: "w = Some e" "e < 10"
        by (auto simp: digit_values_def list_all_iff split: option.splits)
      from eq d e have "d = e" by (auto dest: digit_char_inj)
      then show "v = w" using d e by simp
    qed
    then show ?thesis using that by (simp add: eq distinct_map)
  qed
qed

text \<open>
  C9. For a configuration with \<open>digits\<close> at least one and any doubles in \<open>[0, 1)\<close> as
  the values of \<open>Math.random()\<close>: \<open>generateRandomSecret\<close> fails when duplicates are
  not allowed and \<open>digits\<close> exceeds ten; otherwise it returns a string of exactly
  \<open>digits\<close> characters, all of them digits, and pairwise distinct when duplicates are
  not allowed.
\<close>

theorem generateRandomSecret_shape:
  assumes "1 \<le> digits cfg" and "\<forall>k. is_random (rnd k)"
  shows "if \<not> allowDuplicate cfg \<and> digits cfg > 10
         then generateRandomSecret rnd cfg = Inl InvalidConfiguration
         else (\<exists>s. generateRandomSecret rnd cfg = Inr s
                 \<and> int (length s) = digits cfg
                 \<and> list_all isDigit s
                 \<and> (\<not> allowDuplicate cfg \<longrightarrow> distinct s))"
proof (cases "\<not> allowDuplicate cfg \<and> digits cfg > 10")
  case True
  then show ?thesis by (simp add: generateRandomSecret_def)
next
  case False
  define xs :: "nat list" where "xs = [0, 1, 2, 3, 4, 5, 6, 7, 8, 9]"
  define vs where "vs = generate_loop rnd (digits cfg) (allowDuplicate cfg) xs [] 0"
  have res: "generateRandomSecret rnd cfg = Inr (join_empty vs)"
    using False by (simp add: generateRandomSecret_def vs_def xs_def)
  have len: "length xs = 10" and small: "list_all (\<lambda>d. d < 10) xs" and dist: "distinct xs"
    by (simp_all add: xs_def)
  have start: "int (length ([] :: nat option list)) \<le> digits cfg"
    using assms(1) by simp
  have dv0: "digit_values []" by (simp add: digit_values_def)
  have vs: "int (length vs) = digits cfg \<and> digit_values vs
      \<and> (\<not> allowDuplicate cfg \<longrightarrow> distinct vs)"
  proof (cases "allowDuplicate cfg")
    case True
    then show ?thesis
      using generate_loop_dup [OF assms(2) len small start dv0, of 0] by (simp add: vs_def)
  next
    case nodup: False
    with False have n10: "digits cfg \<le> 10" by simp
    show ?thesis
      using generate_loop_nodup [OF assms(2) n10 start dv0 _ dist small, of 0] nodup len
      by (simp add: vs_def list_all_iff)
  qed
  then have "int (length (join_empty vs)) = digits cfg"
    and "list_all isDigit (join_empty vs)"
    and "\<not> allowDuplicate cfg \<longrightarrow> distinct (join_empty vs)"
    using join_empty_shape [of vs] by simp_all
  then show ?thesis using False res by simp
qed

text \<open>
  With \<open>0.7\<close> for every value of \<open>Math.random()\<close> the products with 10, 9, 8 and 7 are
  rounded to 7, 6.3, 5.6 and 4.9 (the first is a tie, rounded up to exactly 7).
\<close>

lemma bit_length_0_7_products:
  "bit_length 63050394783186940 = 56"
  "bit_length 56745355304868246 = 56"
  "bit_length 50440315826549552 = 56"
  "bit_length 44135276348230858 = 56"
  by (simp_all add: bit_length.simps)

lemma floor_0_7_times:
  "Math_floor (times_number double_0_7 10) = 7"
  "Math_floor (times_number double_0_7 9) = 6"
  "Math_floor (times_number double_0_7 8) = 5"
  "Math_floor (times_number double_0_7 7) = 4"
  by (simp_all add: double_0_7_def times_number_def round_half_even_def Math_floor_def
      bit_length_0_7_products Let_def)

lemma floor_0_7_pool:
  "Math_floor (times_number double_0_7 (Suc (Suc (Suc (Suc (Suc (Suc (Suc (Suc (Suc (Suc (0)))))))))))) = 7"
  "Math_floor (times_number double_0_7 (Suc (Suc (Suc (Suc (Suc (Suc (Suc (Suc (Suc (0))))))))))) = 6"
  "Math_floor (times_number double_0_7 (Suc (Suc (Suc (Suc (Suc (Suc (Suc (Suc (0)))))))))) = 5"
  "Math_floor (times_number double_0_7 (Suc (Suc (Suc (Suc (Suc (Suc (Suc (0))))))))) = 4"
proof -
  have n: "10 = Suc (Suc (Suc (Suc (Suc (Suc (Suc (Suc (Suc (Suc (0))))))))))" "9 = Suc (Suc (Suc (Suc (Suc (Suc (Suc (Suc (Suc (0)))))))))"
    "8 = Suc (Suc (Suc (Suc (Suc (Suc (Suc (Suc (0))))))))" "7 = Suc (Suc (Suc (Suc (Suc (Suc (Suc (0)))))))"
    by simp_all
  show "Math_floor (times_number double_0_7 (Suc (Suc (Suc (Suc (Suc (Suc (Suc (Suc (Suc (Suc (0)))))))))))) = 7"
    using floor_0_7_times(1) by (simp only: n(1))
  show "Math_floor (times_number double_0_7 (Suc (Suc (Suc (Suc (Suc (Suc (Suc (Suc (Suc (0))))))))))) = 6"
    using floor_0_7_times(2) by (simp only: n(2))
  show "Math_floor (times_number double_0_7 (Suc (Suc (Suc (Suc (Suc (Suc (Suc (Suc (0)))))))))) = 5"
    using floor_0_7_times(3) by (simp only: n(3))
  show "Math_floor (times_number double_0_7 (Suc (Suc (Suc (Suc (Suc (Suc (Suc (0))))))))) = 4"
    using floor_0_7_times(4) by (simp only: n(4))
qed

lemma generate_loop_0_7:
  "generate_loop (\<lambda>k. double_0_7) 4 False [0, 1, 2, 3, 4, 5, 6, 7, 8, 9] [] 0
     = [Some 7, Some 6, Some 5, Some 4]"
proof -
  let ?R = "\<lambda>k::nat. double_0_7"
  have "generate_loop ?R 4 False [0, 1, 2, 3, 4, 5, 6, 7, 8, 9] [] 0
      = generate_loop ?R 4 False [0, 1, 2, 3, 4, 5, 6, 8, 9] [Some 7] (Suc 0)"
    by (subst generate_loop.simps) (simp add: floor_0_7_pool arr_at_def splice1_def Let_def)
  also have "\<dots> = generate_loop ?R 4 False [0, 1, 2, 3, 4, 5, 8, 9] [Some 7, Some 6] (Suc (Suc 0))"
    by (subst generate_loop.simps) (simp add: floor_0_7_pool arr_at_def splice1_def Let_def)
  also have "\<dots> = generate_loop ?R 4 False [0, 1, 2, 3, 4, 8, 9] [Some 7, Some 6, Some 5]
      (Suc (Suc (Suc 0)))"
    by (subst generate_loop.simps) (simp add: floor_0_7_pool arr_at_def splice1_def Let_def)
  also have "\<dots> = generate_loop ?R 4 False [0, 1, 2, 3, 8, 9] [Some 7, Some 6, Some 5, Some 4]
      (Suc (Suc (Suc (Suc 0))))"
    by (subst generate_loop.simps) (simp add: floor_0_7_pool arr_at_def splice1_def Let_def)
  also have "\<dots> = [Some 7, Some 6, Some 5, Some 4]"
    by (subst generate_loop.simps) simp
  finally show ?thesis .
qed

theorem generateRandomSecret_shape_witness:
  "1 \<le> digits defaultConfig \<and> is_random double_0_7
   \<and> generateRandomSecret (\<lambda>k. double_0_7) defaultConfig = Inr ''7654''
   \<and> int (length ''7654'') = digits defaultConfig
   \<and> list_all isDigit ''7654'' \<and> distinct ''7654''"
proof -
  have d: "1 \<le> digits defaultConfig" by (simp add: defaultConfig_def)
  have r0: "is_random double_0_7" by (simp add: is_random_def double_0_7_def)
  then have r: "\<forall>k::nat. is_random ((\<lambda>k. double_0_7) k)" by simp
  have ev: "generateRandomSecret (\<lambda>k. double_0_7) defaultConfig = Inr ''7654''"
    by (simp add: generateRandomSecret_def defaultConfig_def generate_loop_0_7 join_empty_def
        number_toString.simps digit_char_def del: One_nat_def)
  from generateRandomSecret_shape [OF d r]
  obtain s where s: "generateRandomSecret (\<lambda>k. double_0_7) defaultConfig = Inr s"
    "int (length s) = digits defaultConfig" "list_all isDigit s" "distinct s"
    by (auto simp: defaultConfig_def)
  from s(1) ev have "s = ''7654''" by simp
  with s d r0 ev show ?thesis by simp
qed

section \<open>Properties of the room service\<close>

lemmas service_defs =
  createRoom_def joinRoom_def setPlayerSecret_def updatePlayerReady_def startGame_def
  submitGuess_def finishGame_def deleteRoom_def updatePlayerActive_def
  getDoc_def setDoc_def updateDoc_def deleteDoc_def host_field_def guest_field_def
  guest_uid_is_def

lemma updateDoc_present:
  "db roomId = Some room \<Longrightarrow> updateDoc db roomId upd = Inr (db(roomId \<mapsto> upd room))"
  by (simp add: updateDoc_def)

lemma updateDoc_absent: "db roomId = None \<Longrightarrow> updateDoc db roomId upd = Inl StoreError"
  by (simp add: updateDoc_def)

subsection \<open>Single operations\<close>

text \<open>
  C2. In an existing room, \<open>submitGuess\<close> by the host appends the guess to the host's
  guesses and makes it the guest's turn; by the guest, it appends to the guest's
  guesses and makes it the host's turn. Nothing else of the room changes but
  \<open>updatedAt\<close>, and the turn before the call plays no part. With a uid of neither
  player the call throws \<open>PlayerNotFound\<close> and writes nothing.
\<close>

theorem submitGuess_appends_and_flips:
  assumes "db roomId = Some room"
  shows "submitGuess db roomId playerUid g now =
     (if uid (host room) = playerUid then
        Inr (db(roomId \<mapsto> room\<lparr>host := (host room)\<lparr>guesses := guesses (host room) @ [g]\<rparr>,
                                  currentTurn := Guest, updatedAt := now\<rparr>))
      else
        (case guest room of
           None \<Rightarrow> Inl PlayerNotFound
         | Some q \<Rightarrow>
             if uid q = playerUid then
               Inr (db(roomId \<mapsto> room\<lparr>guest := Some (q\<lparr>guesses := guesses q @ [g]\<rparr>),
                                         currentTurn := Host, updatedAt := now\<rparr>))
             else Inl PlayerNotFound))"
  using assms
  by (simp add: submitGuess_def getDoc_def guest_uid_is_def updateDoc_present
      host_field_def guest_field_def split: option.splits)

theorem submitGuess_appends_and_flips_witness:
  "[''r'' \<mapsto> readyRoom\<lparr>status := Playing, currentTurn := Guest\<rparr>] ''r''
     = Some (readyRoom\<lparr>status := Playing, currentTurn := Guest\<rparr>)
   \<and> submitGuess [''r'' \<mapsto> readyRoom\<lparr>status := Playing, currentTurn := Guest\<rparr>]
         ''r'' ''h'' ''5678'' 9
       = Inr [''r'' \<mapsto> readyRoom\<lparr>status := Playing, currentTurn := Guest, updatedAt := 9,
                                host := (host readyRoom)\<lparr>guesses := [''5678'']\<rparr>\<rparr>]
   \<and> submitGuess [''r'' \<mapsto> readyRoom\<lparr>status := Playing, currentTurn := Guest\<rparr>]
         ''r'' ''x'' ''5678'' 9
       = Inl PlayerNotFound"
proof -
  let ?room = "readyRoom\<lparr>status := Playing, currentTurn := Guest\<rparr>"
  have h: "[''r'' \<mapsto> ?room] ''r'' = Some ?room" by simp
  show ?thesis
    using submitGuess_appends_and_flips
        [of "[''r'' \<mapsto> ?room]" "''r''" ?room "''h''" "''5678''" 9, OF h]
      submitGuess_appends_and_flips
        [of "[''r'' \<mapsto> ?room]" "''r''" ?room "''x''" "''5678''" 9, OF h]
    by (simp add: readyRoom_def)
qed

text \<open>
  C7. \<open>joinRoom\<close> throws \<open>NotFound\<close> for an id without a room, else \<open>AlreadyFull\<close> when
  the room has a guest, else \<open>NotJoinable\<close> when its status is not \<open>waiting\<close>;
  otherwise it writes a new guest with the given uid, not ready, without guesses, and
  changes nothing else of the room but \<open>updatedAt\<close>.
\<close>

theorem joinRoom_checks_in_order:
  "joinRoom db roomId guestUid now =
     (case db roomId of
        None \<Rightarrow> Inl NotFound
      | Some room \<Rightarrow>
          if guest room \<noteq> None then Inl AlreadyFull
          else if status room \<noteq> Waiting then Inl NotJoinable
          else Inr (True,
                 db(roomId \<mapsto> room\<lparr>guest := Some \<lparr>uid = guestUid, role = Guest, isReady = False,
                                                   secret = None, guesses = [], lastActiveAt = now\<rparr>,
                                     updatedAt := now\<rparr>)))"
  by (simp add: joinRoom_def getDoc_def updateDoc_def Let_def split: option.splits)

theorem joinRoom_checks_in_order_witness:
  "joinRoom [''r'' \<mapsto> finishedRoom] ''q'' ''g2'' 9 = Inl NotFound
   \<and> joinRoom [''r'' \<mapsto> finishedRoom] ''r'' ''g2'' 9 = Inl AlreadyFull
   \<and> joinRoom [''r'' \<mapsto> finishedRoom\<lparr>guest := None\<rparr>] ''r'' ''g2'' 9 = Inl NotJoinable
   \<and> joinRoom [''r'' \<mapsto> readyRoom\<lparr>guest := None\<rparr>] ''r'' ''g2'' 9
       = Inr (True,
           [''r'' \<mapsto> readyRoom\<lparr>guest := Some \<lparr>uid = ''g2'', role = Guest, isReady = False,
                                                secret = None, guesses = [], lastActiveAt = 9\<rparr>,
                                  updatedAt := 9\<rparr>])"
  using joinRoom_checks_in_order [of "[''r'' \<mapsto> finishedRoom]" "''q''" "''g2''" 9]
    joinRoom_checks_in_order [of "[''r'' \<mapsto> finishedRoom]" "''r''" "''g2''" 9]
    joinRoom_checks_in_order [of "[''r'' \<mapsto> finishedRoom\<lparr>guest := None\<rparr>]" "''r''" "''g2''" 9]
    joinRoom_checks_in_order [of "[''r'' \<mapsto> readyRoom\<lparr>guest := None\<rparr>]" "''r''" "''g2''" 9]
  by (simp add: finishedRoom_def readyRoom_def)

text \<open>
  C10. In an existing room, \<open>setPlayerSecret\<close> and \<open>updatePlayerReady\<close> called with a
  uid of neither player return without an error and leave the store as it was.
\<close>

theorem unknown_uid_is_silent_noop:
  assumes "db roomId = Some room" and "uid (host room) \<noteq> playerUid"
    and "\<not> guest_uid_is room playerUid"
  shows "setPlayerSecret db roomId playerUid s now = Inr db
       \<and> updatePlayerReady db roomId playerUid ready now = Inr db"
  using assms by (simp add: setPlayerSecret_def updatePlayerReady_def getDoc_def)

theorem unknown_uid_is_silent_noop_witness:
  "[''r'' \<mapsto> readyRoom] ''r'' = Some readyRoom
   \<and> uid (host readyRoom) \<noteq> ''x'' \<and> \<not> guest_uid_is readyRoom ''x''
   \<and> setPlayerSecret [''r'' \<mapsto> readyRoom] ''r'' ''x'' ''9012'' 7 = Inr [''r'' \<mapsto> readyRoom]
   \<and> updatePlayerReady [''r'' \<mapsto> readyRoom] ''r'' ''x'' False 7 = Inr [''r'' \<mapsto> readyRoom]"
proof -
  have a: "[''r'' \<mapsto> readyRoom] ''r'' = Some readyRoom" by simp
  have b: "uid (host readyRoom) \<noteq> ''x''" by (simp add: readyRoom_def)
  have c: "\<not> guest_uid_is readyRoom ''x''" by (simp add: guest_uid_is_def readyRoom_def)
  show ?thesis
    using unknown_uid_is_silent_noop
        [of "[''r'' \<mapsto> readyRoom]" "''r''" readyRoom "''x''" "''9012''" 7 False, OF a b c]
      a b c
    by simp
qed

subsection \<open>Runs of operations\<close>

lemma run_reachable: "reachable db \<Longrightarrow> run db ops = Some db' \<Longrightarrow> reachable db'"
proof (induction ops arbitrary: db)
  case Nil
  then show ?case by simp
next
  case (Cons a ops)
  obtain now op where a: "a = (now, op)" by (cases a)
  from Cons.prems(2) a obtain db1 where adm: "admissible db op"
    and ex: "exec db now op = Inr db1" and rest: "run db1 ops = Some db'"
    by (auto split: if_splits sum.splits)
  have "reachable db1" using Cons.prems(1) adm ex by (rule reachable_exec)
  then show ?case using rest by (rule Cons.IH)
qed

lemma run_to_ready:
  "run Map.empty
     [(1, CreateRoom ''r'' hostData), (2, JoinRoom ''r'' ''g''),
      (3, SetPlayerSecret ''r'' ''h'' ''1234''), (4, SetPlayerSecret ''r'' ''g'' ''5678''),
      (5, UpdatePlayerReady ''r'' ''h'' True), (6, UpdatePlayerReady ''r'' ''g'' True)]
   = Some [''r'' \<mapsto> readyRoom]"
  by (simp add: service_defs hostData_def readyRoom_def)

lemma run_to_finished:
  "run [''r'' \<mapsto> readyRoom] [(7, StartGame ''r''), (8, FinishGame ''r'')]
   = Some [''r'' \<mapsto> finishedRoom]"
  by (simp add: service_defs secret_missing_def finishedRoom_def readyRoom_def)

lemma reachable_ready: "reachable [''r'' \<mapsto> readyRoom]"
  using reachable_empty run_to_ready by (rule run_reachable)

lemma reachable_finished: "reachable [''r'' \<mapsto> finishedRoom]"
  using reachable_ready run_to_finished by (rule run_reachable)

text \<open>
  C3, as stated: in a room whose status is not \<open>playing\<close>, \<open>submitGuess\<close> by a player
  is rejected. It is not: the host's guess is accepted while the room is still waiting.
\<close>

lemma guess_while_waiting:
  "submitGuess [''r'' \<mapsto> readyRoom] ''r'' ''h'' ''5678'' 7
     = Inr [''r'' \<mapsto> readyRoom\<lparr>host := (host readyRoom)\<lparr>guesses := [''5678'']\<rparr>,
                              currentTurn := Guest, updatedAt := 7\<rparr>]"
  by (simp add: service_defs readyRoom_def)

theorem guess_outside_playing_counterexample:
  "status readyRoom = Waiting
   \<and> submitGuess [''r'' \<mapsto> readyRoom] ''r'' ''h'' ''5678'' 7
       = Inr [''r'' \<mapsto> readyRoom\<lparr>host := (host readyRoom)\<lparr>guesses := [''5678'']\<rparr>,
                                currentTurn := Guest, updatedAt := 7\<rparr>]
   \<and> \<not> (\<forall>db roomId room playerUid g now.
        reachable db \<and> db roomId = Some room \<and> status room \<noteq> Playing
        \<and> (uid (host room) = playerUid \<or> guest_uid_is room playerUid)
        \<longrightarrow> (\<exists>e. submitGuess db roomId playerUid g now = Inl e))"
proof (intro conjI notI)
  show "status readyRoom = Waiting" by (simp add: readyRoom_def)
  show "submitGuess [''r'' \<mapsto> readyRoom] ''r'' ''h'' ''5678'' 7
       = Inr [''r'' \<mapsto> readyRoom\<lparr>host := (host readyRoom)\<lparr>guesses := [''5678'']\<rparr>,
                                currentTurn := Guest, updatedAt := 7\<rparr>]"
    by (rule guess_while_waiting)
next
  assume "\<forall>db roomId room playerUid g now.
        reachable db \<and> db roomId = Some room \<and> status room \<noteq> Playing
        \<and> (uid (host room) = playerUid \<or> guest_uid_is room playerUid)
        \<longrightarrow> (\<exists>e. submitGuess db roomId playerUid g now = Inl e)"
  moreover have "[''r'' \<mapsto> readyRoom] ''r'' = Some readyRoom" by simp
  moreover have "status readyRoom \<noteq> Playing" and "uid (host readyRoom) = ''h''"
    by (simp_all add: readyRoom_def)
  ultimately have "\<exists>e. submitGuess [''r'' \<mapsto> readyRoom] ''r'' ''h'' ''5678'' 7 = Inl e"
    using reachable_ready by blast
  then show False by (simp add: guess_while_waiting)
qed

text \<open>
  C3, amended. \<open>submitGuess\<close> does not look at the status: in a room of any status a
  call by the host or the guest is accepted, appends the guess to the caller's guesses
  and leaves the status as it was.
\<close>

theorem submitGuess_ignores_status:
  assumes "db roomId = Some room"
    and "uid (host room) = playerUid \<or> guest_uid_is room playerUid"
  shows "\<exists>db' room'. submitGuess db roomId playerUid g now = Inr db'
           \<and> db' roomId = Some room'
           \<and> status room' = status room
           \<and> (if uid (host room) = playerUid
                then guesses (host room') = guesses (host room) @ [g]
                else map_option guesses (guest room')
                       = map_option (\<lambda>q. guesses q @ [g]) (guest room))"
proof (cases "uid (host room) = playerUid")
  case True
  then show ?thesis
    using assms(1) by (simp add: submitGuess_def getDoc_def updateDoc_present host_field_def)
next
  case False
  with assms(2) have "guest_uid_is room playerUid" by simp
  then show ?thesis
    using assms(1) False
    by (auto simp: submitGuess_def getDoc_def updateDoc_present guest_field_def
        guest_uid_is_def split: option.splits)
qed

theorem submitGuess_ignores_status_witness:
  "[''r'' \<mapsto> finishedRoom] ''r'' = Some finishedRoom
   \<and> (uid (host finishedRoom) = ''g'' \<or> guest_uid_is finishedRoom ''g'')
   \<and> (\<exists>db' room'. submitGuess [''r'' \<mapsto> finishedRoom] ''r'' ''g'' ''1234'' 9 = Inr db'
         \<and> db' ''r'' = Some room' \<and> status room' = Finished
         \<and> map_option guesses (guest room') = Some [''1234''])"
proof -
  have a: "[''r'' \<mapsto> finishedRoom] ''r'' = Some finishedRoom" by simp
  have b: "uid (host finishedRoom) = ''g'' \<or> guest_uid_is finishedRoom ''g''"
    by (simp add: guest_uid_is_def finishedRoom_def readyRoom_def)
  have c: "uid (host finishedRoom) \<noteq> ''g''" "status finishedRoom = Finished"
    "map_option (\<lambda>q. guesses q @ [''1234'']) (guest finishedRoom) = Some [''1234'']"
    by (simp_all add: finishedRoom_def readyRoom_def)
  show ?thesis
    using submitGuess_ignores_status
        [of "[''r'' \<mapsto> finishedRoom]" "''r''" finishedRoom "''g''" "''1234''" 9, OF a b]
      a b c
    by simp
qed

text \<open>
  C4, as stated: along the operations the status only moves forward in the order
  \<open>waiting\<close>, \<open>playing\<close>, \<open>finished\<close>. It does not: \<open>startGame\<close> takes a finished room,
  whose players are still ready, back to \<open>playing\<close>.
\<close>

lemma restart_finished:
  "exec [''r'' \<mapsto> finishedRoom] 9 (StartGame ''r'')
     = Inr [''r'' \<mapsto> finishedRoom\<lparr>status := Playing, updatedAt := 9\<rparr>]"
  by (simp add: service_defs secret_missing_def finishedRoom_def readyRoom_def)

theorem status_backward_counterexample:
  "status finishedRoom = Finished
   \<and> exec [''r'' \<mapsto> finishedRoom] 9 (StartGame ''r'')
       = Inr [''r'' \<mapsto> finishedRoom\<lparr>status := Playing, updatedAt := 9\<rparr>]
   \<and> \<not> (\<forall>db now op db' roomId room room'.
        reachable db \<and> admissible db op \<and> exec db now op = Inr db'
        \<and> db roomId = Some room \<and> db' roomId = Some room'
        \<longrightarrow> status_forward room room')"
proof (intro conjI notI)
  show "status finishedRoom = Finished" by (simp add: finishedRoom_def)
  show "exec [''r'' \<mapsto> finishedRoom] 9 (StartGame ''r'')
       = Inr [''r'' \<mapsto> finishedRoom\<lparr>status := Playing, updatedAt := 9\<rparr>]"
    by (rule restart_finished)
next
  assume all: "\<forall>db now op db' roomId room room'.
        reachable db \<and> admissible db op \<and> exec db now op = Inr db'
        \<and> db roomId = Some room \<and> db' roomId = Some room'
        \<longrightarrow> status_forward room room'"
  let ?room' = "finishedRoom\<lparr>status := Playing, updatedAt := 9\<rparr>"
  have "admissible [''r'' \<mapsto> finishedRoom] (StartGame ''r'')" by simp
  moreover have "[''r'' \<mapsto> finishedRoom] ''r'' = Some finishedRoom"
    and "[''r'' \<mapsto> ?room'] ''r'' = Some ?room'" by simp_all
  ultimately have "status_forward finishedRoom ?room'"
    using all reachable_finished restart_finished by blast
  then show False
    by (simp add: status_forward_def finishedRoom_def)
qed

text \<open>What a call that succeeds can do to the status of a room that stays.\<close>

lemma exec_status_change:
  assumes "admissible db op" and "exec db now op = Inr db'"
    and "db roomId = Some room" and "db' roomId = Some room'"
  shows "(status room' = Waiting \<longrightarrow> status room = Waiting)
       \<and> (status room' = status room
          \<or> op = StartGame roomId \<and> status room' = Playing
          \<or> op = FinishGame roomId \<and> status room' = Finished)"
proof -
  have change: "status room' = status room
          \<or> op = StartGame roomId \<and> status room' = Playing
          \<or> op = FinishGame roomId \<and> status room' = Finished"
  proof (cases op)
    case (CreateRoom rid d)
    then show ?thesis using assms by (auto simp: service_defs split: if_splits)
  next
    case (JoinRoom rid guestUid)
    then show ?thesis
      using assms by (auto simp: service_defs split: option.splits if_splits)
  next
    case (SetPlayerSecret rid playerUid s)
    then show ?thesis
      using assms by (auto simp: service_defs split: option.splits if_splits)
  next
    case (UpdatePlayerReady rid playerUid ready)
    then show ?thesis
      using assms by (auto simp: service_defs split: option.splits if_splits)
  next
    case (StartGame rid)
    then show ?thesis
      using assms by (auto simp: service_defs split: option.splits if_splits)
  next
    case (SubmitGuess rid playerUid g)
    then show ?thesis
      using assms by (auto simp: service_defs split: option.splits if_splits)
  next
    case (FinishGame rid)
    then show ?thesis
      using assms by (auto simp: service_defs split: option.splits if_splits)
  next
    case (DeleteRoom rid)
    then show ?thesis
      using assms by (auto simp: service_defs split: option.splits if_splits)
  next
    case (UpdatePlayerActive rid playerUid)
    then show ?thesis
      using assms by (auto simp: service_defs split: option.splits if_splits)
  qed
  then show ?thesis by auto
qed


text \<open>
  C4, amended. No operation moves the status of a room back to \<open>waiting\<close>: a call that
  succeeds leaves the status as it was, unless it is \<open>startGame\<close>, which sets
  \<open>playing\<close>, or \<open>finishGame\<close>, which sets \<open>finished\<close>. Neither of the two looks at the
  status: in an existing room \<open>finishGame\<close> always succeeds, \<open>startGame\<close> succeeds
  exactly when there is a guest, both players are ready and both secrets are set, and
  the error or the room that either leaves is the same whatever the status was.
\<close>

theorem status_never_back_to_waiting:
  assumes "db roomId = Some room"
  shows "(\<forall>op t db' room'.
            admissible db op \<and> exec db t op = Inr db' \<and> db' roomId = Some room'
            \<longrightarrow> (status room' = Waiting \<longrightarrow> status room = Waiting)
                \<and> (status room' = status room
                   \<or> op = StartGame roomId \<and> status room' = Playing
                   \<or> op = FinishGame roomId \<and> status room' = Finished))
       \<and> startGame db roomId now =
            (case guest room of
               None \<Rightarrow> Inl NotReady
             | Some g \<Rightarrow>
                 if \<not> isReady (host room) \<or> \<not> isReady g then Inl NotReady
                 else if secret_missing (host room) \<or> secret_missing g then Inl SecretsMissing
                 else Inr (db(roomId \<mapsto> room\<lparr>status := Playing, updatedAt := now\<rparr>)))
       \<and> finishGame db roomId now
            = Inr (db(roomId \<mapsto> room\<lparr>status := Finished, updatedAt := now\<rparr>))
       \<and> (\<forall>s. map_sum id (\<lambda>db'. db' roomId)
                  (startGame (db(roomId \<mapsto> room\<lparr>status := s\<rparr>)) roomId now)
                = map_sum id (\<lambda>db'. db' roomId) (startGame db roomId now))
       \<and> (\<forall>s. map_sum id (\<lambda>db'. db' roomId)
                  (finishGame (db(roomId \<mapsto> room\<lparr>status := s\<rparr>)) roomId now)
                = map_sum id (\<lambda>db'. db' roomId) (finishGame db roomId now))"
proof (intro conjI allI impI)
  fix op t db' room'
  assume h: "admissible db op \<and> exec db t op = Inr db' \<and> db' roomId = Some room'"
  then have a: "admissible db op" and e: "exec db t op = Inr db'"
    and r: "db' roomId = Some room'" by simp_all
  note step = exec_status_change [OF a e assms r]
  assume "status room' = Waiting"
  with step show "status room = Waiting" by simp
next
  fix op t db' room'
  assume h: "admissible db op \<and> exec db t op = Inr db' \<and> db' roomId = Some room'"
  then have a: "admissible db op" and e: "exec db t op = Inr db'"
    and r: "db' roomId = Some room'" by simp_all
  from exec_status_change [OF a e assms r]
  show "status room' = status room
      \<or> op = StartGame roomId \<and> status room' = Playing
      \<or> op = FinishGame roomId \<and> status room' = Finished" by simp
next
  show start: "startGame db roomId now =
            (case guest room of
               None \<Rightarrow> Inl NotReady
             | Some g \<Rightarrow>
                 if \<not> isReady (host room) \<or> \<not> isReady g then Inl NotReady
                 else if secret_missing (host room) \<or> secret_missing g then Inl SecretsMissing
                 else Inr (db(roomId \<mapsto> room\<lparr>status := Playing, updatedAt := now\<rparr>)))"
    using assms by (simp add: startGame_def getDoc_def updateDoc_present split: option.splits)
next
  show "finishGame db roomId now
            = Inr (db(roomId \<mapsto> room\<lparr>status := Finished, updatedAt := now\<rparr>))"
    using assms by (simp add: finishGame_def updateDoc_present)
next
  fix s
  show "map_sum id (\<lambda>db'. db' roomId)
          (startGame (db(roomId \<mapsto> room\<lparr>status := s\<rparr>)) roomId now)
        = map_sum id (\<lambda>db'. db' roomId) (startGame db roomId now)"
    using assms
    by (simp add: startGame_def getDoc_def updateDoc_def secret_missing_def split: option.splits)
next
  fix s
  show "map_sum id (\<lambda>db'. db' roomId)
          (finishGame (db(roomId \<mapsto> room\<lparr>status := s\<rparr>)) roomId now)
        = map_sum id (\<lambda>db'. db' roomId) (finishGame db roomId now)"
    using assms by (simp add: finishGame_def updateDoc_def)
qed

theorem status_never_back_to_waiting_witness:
  "[''r'' \<mapsto> finishedRoom] ''r'' = Some finishedRoom
   \<and> status finishedRoom = Finished
   \<and> startGame [''r'' \<mapsto> finishedRoom] ''r'' 9
       = Inr [''r'' \<mapsto> finishedRoom\<lparr>status := Playing, updatedAt := 9\<rparr>]
   \<and> finishGame [''r'' \<mapsto> finishedRoom] ''r'' 9
       = Inr [''r'' \<mapsto> finishedRoom\<lparr>status := Finished, updatedAt := 9\<rparr>]"
proof -
  have a: "[''r'' \<mapsto> finishedRoom] ''r'' = Some finishedRoom" by simp
  have b: "status finishedRoom = Finished" by (simp add: finishedRoom_def)
  have g: "guest finishedRoom = Some \<lparr>uid = ''g'', role = Guest, isReady = True,
      secret = Some ''5678'', guesses = [], lastActiveAt = 2\<rparr>"
    and h: "isReady (host finishedRoom)" "secret (host finishedRoom) = Some ''1234''"
    by (simp_all add: finishedRoom_def readyRoom_def)
  note inst = status_never_back_to_waiting
    [of "[''r'' \<mapsto> finishedRoom]" "''r''" finishedRoom 9, OF a]
  from inst have "startGame [''r'' \<mapsto> finishedRoom] ''r'' 9
       = Inr [''r'' \<mapsto> finishedRoom\<lparr>status := Playing, updatedAt := 9\<rparr>]"
    by (simp add: g h secret_missing_def)
  moreover from inst have "finishGame [''r'' \<mapsto> finishedRoom] ''r'' 9
       = Inr [''r'' \<mapsto> finishedRoom\<lparr>status := Finished, updatedAt := 9\<rparr>]"
    by simp
  ultimately show ?thesis using a b by simp
qed

text \<open>
  C5, as stated: a secret that has been set is never changed. It is: a second
  \<open>setPlayerSecret\<close> of the host replaces the first secret.
\<close>

lemma secret_set_again:
  "exec [''r'' \<mapsto> readyRoom] 7 (SetPlayerSecret ''r'' ''h'' ''9012'')
     = Inr [''r'' \<mapsto> readyRoom\<lparr>host := (host readyRoom)\<lparr>secret := Some ''9012''\<rparr>,
                              updatedAt := 7\<rparr>]"
  by (simp add: service_defs readyRoom_def)

theorem secret_reassigned_counterexample:
  "secret (host readyRoom) = Some ''1234''
   \<and> exec [''r'' \<mapsto> readyRoom] 7 (SetPlayerSecret ''r'' ''h'' ''9012'')
       = Inr [''r'' \<mapsto> readyRoom\<lparr>host := (host readyRoom)\<lparr>secret := Some ''9012''\<rparr>,
                                updatedAt := 7\<rparr>]
   \<and> \<not> (\<forall>db now op db' roomId room room' s.
        reachable db \<and> admissible db op \<and> exec db now op = Inr db'
        \<and> db roomId = Some room \<and> db' roomId = Some room' \<and> secret (host room) = Some s
        \<longrightarrow> secret (host room') = Some s)"
proof (intro conjI notI)
  show "secret (host readyRoom) = Some ''1234''" by (simp add: readyRoom_def)
  show "exec [''r'' \<mapsto> readyRoom] 7 (SetPlayerSecret ''r'' ''h'' ''9012'')
       = Inr [''r'' \<mapsto> readyRoom\<lparr>host := (host readyRoom)\<lparr>secret := Some ''9012''\<rparr>,
                                updatedAt := 7\<rparr>]"
    by (rule secret_set_again)
next
  assume all: "\<forall>db now op db' roomId room room' s.
        reachable db \<and> admissible db op \<and> exec db now op = Inr db'
        \<and> db roomId = Some room \<and> db' roomId = Some room' \<and> secret (host room) = Some s
        \<longrightarrow> secret (host room') = Some s"
  let ?room' = "readyRoom\<lparr>host := (host readyRoom)\<lparr>secret := Some ''9012''\<rparr>, updatedAt := 7\<rparr>"
  have "secret (host readyRoom) = Some ''1234''" by (simp add: readyRoom_def)
  moreover have "admissible [''r'' \<mapsto> readyRoom] (SetPlayerSecret ''r'' ''h'' ''9012'')"
    by simp
  moreover have "[''r'' \<mapsto> readyRoom] ''r'' = Some readyRoom"
    and "[''r'' \<mapsto> ?room'] ''r'' = Some ?room'" by simp_all
  ultimately have "secret (host ?room') = Some ''1234''"
    using all reachable_ready secret_set_again by blast
  then show False by simp
qed

text \<open>
  C5, amended. \<open>setPlayerSecret\<close> called with a player's uid writes the new secret
  whether or not one was set before; no other call changes the secret of a player of
  an existing room.
\<close>

theorem secret_overwritten_only_by_setPlayerSecret:
  assumes "db roomId = Some room"
  shows "(\<exists>db' room'. setPlayerSecret db roomId (uid (host room)) s now = Inr db'
            \<and> db' roomId = Some room' \<and> secret (host room') = Some s)
       \<and> (\<forall>g. guest room = Some g \<and> uid g \<noteq> uid (host room) \<longrightarrow>
            (\<exists>db' room' g'. setPlayerSecret db roomId (uid g) s now = Inr db'
               \<and> db' roomId = Some room' \<and> guest room' = Some g' \<and> secret g' = Some s))
       \<and> (\<forall>op t db' room'.
            admissible db op \<and> exec db t op = Inr db' \<and> db' roomId = Some room'
            \<and> (\<forall>s'. op \<noteq> SetPlayerSecret roomId (uid (host room)) s')
            \<longrightarrow> secret (host room') = secret (host room))
       \<and> (\<forall>g op t db' room'.
            guest room = Some g \<and> admissible db op \<and> exec db t op = Inr db'
            \<and> db' roomId = Some room' \<and> (\<forall>s'. op \<noteq> SetPlayerSecret roomId (uid g) s')
            \<longrightarrow> map_option secret (guest room') = Some (secret g))"
proof (intro conjI allI impI)
  show "\<exists>db' room'. setPlayerSecret db roomId (uid (host room)) s now = Inr db'
            \<and> db' roomId = Some room' \<and> secret (host room') = Some s"
    using assms by (simp add: service_defs)
next
  fix g
  assume "guest room = Some g \<and> uid g \<noteq> uid (host room)"
  then show "\<exists>db' room' g'. setPlayerSecret db roomId (uid g) s now = Inr db'
               \<and> db' roomId = Some room' \<and> guest room' = Some g' \<and> secret g' = Some s"
    using assms by (auto simp: service_defs)
next
  fix op t db' room'
  assume h: "admissible db op \<and> exec db t op = Inr db' \<and> db' roomId = Some room'
            \<and> (\<forall>s'. op \<noteq> SetPlayerSecret roomId (uid (host room)) s')"
  show "secret (host room') = secret (host room)"
  proof (cases op)
    case (SetPlayerSecret rid playerUid s')
    with h have "rid \<noteq> roomId \<or> playerUid \<noteq> uid (host room)" by auto
    then show ?thesis
      using h assms SetPlayerSecret
      by (auto simp: service_defs split: option.splits if_splits)
  qed (use h assms in \<open>auto simp: service_defs split: option.splits if_splits\<close>)
next
  fix g op t db' room'
  assume h: "guest room = Some g \<and> admissible db op \<and> exec db t op = Inr db'
            \<and> db' roomId = Some room' \<and> (\<forall>s'. op \<noteq> SetPlayerSecret roomId (uid g) s')"
  show "map_option secret (guest room') = Some (secret g)"
  proof (cases op)
    case (SetPlayerSecret rid playerUid s')
    with h have "rid \<noteq> roomId \<or> playerUid \<noteq> uid g" by auto
    then show ?thesis
      using h assms SetPlayerSecret
      by (auto simp: service_defs split: option.splits if_splits)
  qed (use h assms in \<open>auto simp: service_defs split: option.splits if_splits\<close>)
qed

theorem secret_overwritten_only_by_setPlayerSecret_witness:
  "[''r'' \<mapsto> readyRoom] ''r'' = Some readyRoom
   \<and> secret (host readyRoom) = Some ''1234''
   \<and> (\<exists>db' room'. setPlayerSecret [''r'' \<mapsto> readyRoom] ''r'' ''h'' ''9012'' 7 = Inr db'
         \<and> db' ''r'' = Some room' \<and> secret (host room') = Some ''9012'')"
proof -
  have a: "[''r'' \<mapsto> readyRoom] ''r'' = Some readyRoom" by simp
  have b: "secret (host readyRoom) = Some ''1234''" "uid (host readyRoom) = ''h''"
    by (simp_all add: readyRoom_def)
  from secret_overwritten_only_by_setPlayerSecret
    [of "[''r'' \<mapsto> readyRoom]" "''r''" readyRoom "''9012''" 7, OF a]
  have "\<exists>db' room'. setPlayerSecret [''r'' \<mapsto> readyRoom] ''r'' (uid (host readyRoom)) ''9012'' 7
          = Inr db' \<and> db' ''r'' = Some room' \<and> secret (host room') = Some ''9012''"
    by blast
  with a b show ?thesis by simp
qed

end
